theory Spec2Isabelle
  imports Main
begin

section \<open>The room-state coordinator of server.js\<close>

text \<open>
  The development embeds the Socket.IO event handlers of \<^verbatim>\<open>server.js\<close>. The three
  process-wide objects \<^verbatim>\<open>rooms\<close>, \<^verbatim>\<open>whiteboardData\<close> and \<^verbatim>\<open>taskBoards\<close> are maps
  from room keys to values, holding their own properties; \<^verbatim>\<open>delete obj[k]\<close> is the
  update \<open>m(k := None)\<close>. Room keys,
  socket ids, user names and message texts are strings; a field of an event payload
  is a \<open>string option\<close>, \<open>None\<close> standing for a missing (undefined) field. Payloads
  that are not objects are outside this model.

  The three stores are plain objects, so a key that names a property of
  \<^verbatim>\<open>Object.prototype\<close> reads an inherited value where the object has no own property:
  \<^verbatim>\<open>rooms["constructor"]\<close> is a function, on which \<^verbatim>\<open>push\<close> throws, and an assignment
  to \<^verbatim>\<open>taskBoards["__proto__"]\<close> replaces the prototype of \<^verbatim>\<open>taskBoards\<close>. Arrays are
  stored by reference: the stroke logs live in a store of arrays, and
  \<^verbatim>\<open>whiteboardData\<close> maps a room key to the address of its array.

  The two handlers that \<^verbatim>\<open>await\<close> the message store run in two steps of the event
  loop, and other events are processed in between: \<^verbatim>\<open>join-room\<close> suspends at
  \<^verbatim>\<open>Message.find\<close>, \<^verbatim>\<open>send-message\<close> at \<^verbatim>\<open>Message.create\<close>. The suspended
  continuations are part of the state.
\<close>

subsection \<open>Data\<close>

type_synonym socket_id = string
type_synonym room_id = string

text \<open>A stroke is an opaque payload; the server never looks inside.\<close>
type_synonym stroke = string

text \<open>An entry of \<^verbatim>\<open>rooms[roomId]\<close>: \<^verbatim>\<open>{ socketId, username }\<close>.\<close>
record member =
  socketId :: socket_id
  username :: string

text \<open>A document of the Message collection (the Message schema).\<close>
record message =
  roomId :: room_id
  sender :: string
  text_field :: string
  createdAt :: nat

text \<open>A task board: \<^verbatim>\<open>{ todo: [...], inprogress: [...], done: [...] }\<close>.\<close>
record board =
  todo :: "string list"
  inprogress :: "string list"
  done_field :: "string list"

definition default_board :: board where
  "default_board = \<lparr>todo = [], inprogress = [], done_field = []\<rparr>"

text \<open>
  What \<^verbatim>\<open>taskBoards[k]\<close> can evaluate to: a board stored under the key, a list of
  items (the property \<^verbatim>\<open>todo\<close>, \<^verbatim>\<open>inprogress\<close> or \<^verbatim>\<open>done\<close> of a board that has become
  the prototype), or the built-in property of \<^verbatim>\<open>Object.prototype\<close> of that name.
\<close>
datatype board_value =
    Board board
  | Items "string list"
  | Builtin string

text \<open>An exception that ended a handler.\<close>
datatype js_error = TypeError

text \<open>What the server emits. Undo and redo carry the payload as it was received.\<close>
datatype server_event =
    UsersUpdate "member list"
  | UserJoined member
  | UserLeft socket_id
  | MessagesInitial "message list"
  | WhiteboardInitial "stroke list"
  | TasksUpdate board_value
  | WhiteboardDraw stroke
  | WhiteboardUndo "stroke list option"
  | WhiteboardRedo "stroke list option"
  | WhiteboardClear
  | MessageNew message
  | Offer string socket_id
  | Answer string socket_id
  | IceCandidate string socket_id

text \<open>What a client emits, with the fields the handlers destructure.\<close>
datatype client_event =
    EvJoinRoom "string option" "string option"
  | EvWhiteboardDraw stroke
  | EvWhiteboardUndo "stroke list option"
  | EvWhiteboardRedo "stroke list option"
  | EvWhiteboardClear
  | EvSendMessage "string option" "string option" "string option"
  | EvTasksGet "string option"
  | EvTasksUpdate "string option" "board option"
  | EvOffer "string option" string
  | EvAnswer "string option" string
  | EvIceCandidate "string option" string

text \<open>
  The steps of the event loop: a transport-level connect or disconnect, an event
  received from a connected client, the completion of a suspended store operation
  (with its outcome), and the passing of time.
\<close>
datatype event =
    Connect socket_id
  | Client socket_id client_event
  | Disconnect socket_id
  | FindDone socket_id room_id bool
  | CreateDone nat bool
  | Tick nat

text \<open>
  The state: the three in-memory stores of the source (the own properties of each
  object; \<open>taskBoards_proto\<close> is the board that has replaced the prototype of
  \<^verbatim>\<open>taskBoards\<close>, \<open>None\<close> while it is \<^verbatim>\<open>Object.prototype\<close>), the store of stroke arrays
  with the next free address, the Socket.IO server (the connected sockets in
  connection order, the rooms of its adapter with their sockets in joining order, the
  closures that completed \<^verbatim>\<open>join-room\<close> runs have registered on each socket, the ids
  already handed out), the suspended store operations, the Message collection, the
  clock behind \<^verbatim>\<open>Date.now\<close>, the exceptions thrown by handlers, and the log of what was
  delivered to whom.
\<close>
record state =
  rooms :: "room_id \<rightharpoonup> member list"
  whiteboardData :: "room_id \<rightharpoonup> nat"
  arrays :: "nat \<Rightarrow> stroke list"
  next_array :: nat
  taskBoards :: "room_id \<rightharpoonup> board"
  taskBoards_proto :: "board option"
  sockets :: "socket_id list"
  adapter :: "room_id \<Rightarrow> socket_id list"
  listeners :: "socket_id \<Rightarrow> room_id list"
  used_ids :: "socket_id set"
  pending_finds :: "(socket_id \<times> room_id) list"
  pending_creates :: "message list"
  Message_collection :: "message list"
  clock :: nat
  thrown :: "js_error list"
  delivered :: "(socket_id \<times> server_event) list"

definition init :: "message list \<Rightarrow> state" where
  "init coll =
     \<lparr>rooms = Map.empty, whiteboardData = Map.empty, arrays = (\<lambda>_. []), next_array = 0,
      taskBoards = Map.empty, taskBoards_proto = None,
      sockets = [], adapter = (\<lambda>_. []), listeners = (\<lambda>_. []), used_ids = {},
      pending_finds = [], pending_creates = [], Message_collection = coll,
      clock = 0, thrown = [], delivered = []\<rparr>"

subsection \<open>JavaScript values\<close>

text \<open>\<^verbatim>\<open>!v\<close> for a string field: undefined and the empty string are falsy.\<close>
definition truthy :: "string option \<Rightarrow> bool" where
  "truthy v = (case v of None \<Rightarrow> False | Some s \<Rightarrow> s \<noteq> [])"

text \<open>\<^verbatim>\<open>obj[k] || []\<close>: an array, even an empty one, is truthy.\<close>
definition or_empty :: "'a list option \<Rightarrow> 'a list" where
  "or_empty v = (case v of None \<Rightarrow> [] | Some xs \<Rightarrow> xs)"

text \<open>
  \<^verbatim>\<open>taskBoards[r] || { todo: [], inprogress: [], done: [] }\<close>: objects, arrays and
  functions are all truthy.
\<close>
definition or_default :: "board_value option \<Rightarrow> board_value" where
  "or_default v = (case v of None \<Rightarrow> Board default_board | Some b \<Rightarrow> b)"

text \<open>A property key: \<^verbatim>\<open>obj[undefined]\<close> reads the key \<^verbatim>\<open>"undefined"\<close>.\<close>
definition key_of :: "string option \<Rightarrow> string" where
  "key_of v = (case v of None \<Rightarrow> ''undefined'' | Some k \<Rightarrow> k)"

text \<open>The property names of \<^verbatim>\<open>Object.prototype\<close>, which every plain object inherits.\<close>
definition Object_prototype :: "string list" where
  "Object_prototype =
     [''constructor'', ''__defineGetter__'', ''__defineSetter__'', ''hasOwnProperty'',
      ''__lookupGetter__'', ''__lookupSetter__'', ''isPrototypeOf'',
      ''propertyIsEnumerable'', ''toString'', ''valueOf'', ''__proto__'',
      ''toLocaleString'']"

text \<open>The property \<open>k\<close> of a board object.\<close>
definition board_property :: "board \<Rightarrow> string \<Rightarrow> board_value option" where
  "board_property b k =
     (if k = ''todo'' then Some (Items (todo b))
      else if k = ''inprogress'' then Some (Items (inprogress b))
      else if k = ''done'' then Some (Items (done_field b))
      else None)"

text \<open>
  \<^verbatim>\<open>taskBoards[k]\<close>: the own property; failing that, for \<^verbatim>\<open>__proto__\<close> the prototype
  itself; failing that, the property of a board that has become the prototype;
  failing that, the property of \<^verbatim>\<open>Object.prototype\<close>; undefined otherwise.
\<close>
definition taskBoards_get :: "state \<Rightarrow> string \<Rightarrow> board_value option" where
  "taskBoards_get st k =
     (case taskBoards st k of
        Some b \<Rightarrow> Some (Board b)
      | None \<Rightarrow>
          (case taskBoards_proto st of
             None \<Rightarrow> if k \<in> set Object_prototype then Some (Builtin k) else None
           | Some p \<Rightarrow>
               if k = ''__proto__'' then Some (Board p)
               else (case board_property p k of
                       Some v \<Rightarrow> Some v
                     | None \<Rightarrow> if k \<in> set Object_prototype then Some (Builtin k) else None)))"

text \<open>
  \<^verbatim>\<open>taskBoards[k] = b\<close>: the key \<^verbatim>\<open>__proto__\<close> sets the prototype, any other key an own
  property.
\<close>
definition taskBoards_set :: "string \<Rightarrow> board \<Rightarrow> state \<Rightarrow> state" where
  "taskBoards_set k b st =
     (if k = ''__proto__'' then st\<lparr>taskBoards_proto := Some b\<rparr>
      else st\<lparr>taskBoards := (taskBoards st)(k \<mapsto> b)\<rparr>)"

text \<open>A new array with the given contents, at the next free address.\<close>
definition new_array :: "stroke list \<Rightarrow> state \<Rightarrow> state" where
  "new_array xs st =
     st\<lparr>arrays := (arrays st)(next_array st := xs), next_array := Suc (next_array st)\<rparr>"

text \<open>\<^verbatim>\<open>a.push(x)\<close>: the array is extended in place.\<close>
definition array_push :: "nat \<Rightarrow> stroke \<Rightarrow> state \<Rightarrow> state" where
  "array_push a x st = st\<lparr>arrays := (arrays st)(a := arrays st a @ [x])\<rparr>"

subsection \<open>Socket.IO: who receives an emit\<close>

text \<open>
  A socket is in the adapter room named by its own id from its connection on, and in
  every room it has joined; it leaves them all before its disconnect handlers run.
  The adapter keeps the sockets of a room in the order in which they joined it.
  \<^verbatim>\<open>io.to(x)\<close> addresses the connected sockets in room \<open>x\<close>, \<^verbatim>\<open>socket.to(x)\<close> the same
  without the socket itself, \<^verbatim>\<open>socket.emit\<close> the socket alone (nothing once it is
  disconnected).
\<close>
definition socket_join :: "socket_id \<Rightarrow> room_id \<Rightarrow> state \<Rightarrow> state" where
  "socket_join s x st =
     (if s \<in> set (adapter st x) then st
      else st\<lparr>adapter := (adapter st)(x := adapter st x @ [s])\<rparr>)"

definition in_room :: "state \<Rightarrow> room_id \<Rightarrow> socket_id list" where
  "in_room st x = filter (\<lambda>t. t \<in> set (sockets st)) (adapter st x)"

definition emit_to :: "socket_id list \<Rightarrow> server_event \<Rightarrow> state \<Rightarrow> state" where
  "emit_to rcpts ev st = st\<lparr>delivered := delivered st @ map (\<lambda>t. (t, ev)) rcpts\<rparr>"

definition io_to_emit :: "room_id \<Rightarrow> server_event \<Rightarrow> state \<Rightarrow> state" where
  "io_to_emit x ev st = emit_to (in_room st x) ev st"

definition socket_to_emit :: "socket_id \<Rightarrow> room_id \<Rightarrow> server_event \<Rightarrow> state \<Rightarrow> state" where
  "socket_to_emit s x ev st = emit_to (filter (\<lambda>t. t \<noteq> s) (in_room st x)) ev st"

definition socket_emit :: "socket_id \<Rightarrow> server_event \<Rightarrow> state \<Rightarrow> state" where
  "socket_emit s ev st = emit_to (filter (\<lambda>t. t = s) (sockets st)) ev st"

subsection \<open>The message store\<close>

text \<open>
  \<^verbatim>\<open>Message.find({ roomId }).sort({ createdAt: 1 }).limit(200).lean()\<close>: the documents
  of the room, sorted by creation time ascending, cut after the first 200.
\<close>
definition Message_find :: "message list \<Rightarrow> room_id \<Rightarrow> message list" where
  "Message_find coll r = take 200 (sort_key createdAt (filter (\<lambda>m. roomId m = r) coll))"

subsection \<open>The handlers\<close>

text \<open>\<^verbatim>\<open>whiteboardData[r] || []\<close>: the contents of the room's array, empty when absent.\<close>
definition getStrokes :: "state \<Rightarrow> room_id \<Rightarrow> stroke list" where
  "getStrokes st r = (case whiteboardData st r of None \<Rightarrow> [] | Some a \<Rightarrow> arrays st a)"

text \<open>
  \<^verbatim>\<open>join-room\<close>, lines 53 to 80: the guard, \<^verbatim>\<open>socket.join\<close>, the push onto
  \<^verbatim>\<open>rooms[roomId]\<close>, the two notifications, and the suspension at \<^verbatim>\<open>Message.find\<close>.
  Where \<^verbatim>\<open>rooms\<close> has no own property \<^verbatim>\<open>roomId\<close> but inherits one, \<^verbatim>\<open>rooms[roomId]\<close>
  is truthy and has no \<^verbatim>\<open>push\<close>: line 65 throws a \<^verbatim>\<open>TypeError\<close>, which ends the
  handler after \<^verbatim>\<open>socket.join\<close>, with no entry stored and no listener registered.
  The run goes on from there: what the runtime does with the rejected promise of the
  handler is not part of \<^verbatim>\<open>server.js\<close>.
\<close>
definition join_room :: "socket_id \<Rightarrow> string option \<Rightarrow> string option \<Rightarrow> state \<Rightarrow> state" where
  "join_room s roomId_arg username_arg st =
     (if \<not> truthy roomId_arg \<or> \<not> truthy username_arg then st
      else
        let r = key_of roomId_arg;
            u = key_of username_arg;
            st1 = socket_join s r st
        in if rooms st1 r = None \<and> r \<in> set Object_prototype
           then st1\<lparr>thrown := thrown st1 @ [TypeError]\<rparr>
           else
             let st2 = st1\<lparr>rooms := (rooms st1)(r \<mapsto>
                          or_empty (rooms st1 r) @ [\<lparr>socketId = s, username = u\<rparr>])\<rparr>;
                 st3 = io_to_emit r (UsersUpdate (or_empty (rooms st2 r))) st2;
                 st4 = socket_to_emit s r (UserJoined \<lparr>socketId = s, username = u\<rparr>) st3
             in st4\<lparr>pending_finds := pending_finds st4 @ [(s, r)]\<rparr>)"

text \<open>
  \<^verbatim>\<open>join-room\<close>, lines 82 to 185, once the query has answered (\<open>None\<close>: it failed and
  the \<^verbatim>\<open>catch\<close> branch runs): the three pushes to the joining socket, then the
  registration of the room-scoped handlers, closed over \<^verbatim>\<open>roomId\<close>.
\<close>
definition join_room_resume ::
  "socket_id \<Rightarrow> room_id \<Rightarrow> message list option \<Rightarrow> state \<Rightarrow> state" where
  "join_room_resume s r found st =
     (let st1 = socket_emit s (MessagesInitial (or_empty found)) st;
          st2 = socket_emit s (WhiteboardInitial (getStrokes st1 r)) st1;
          st3 = socket_emit s (TasksUpdate (or_default (taskBoards_get st2 r))) st2
      in st3\<lparr>listeners := (listeners st3)(s := listeners st3 s @ [r])\<rparr>)"

text \<open>
  The whiteboard handlers, lines 98 to 120; \<open>r\<close> is the \<^verbatim>\<open>roomId\<close> of the closure.
  A draw pushes onto the array that \<^verbatim>\<open>whiteboardData[roomId]\<close> refers to, a new one
  when there is none. Undo and redo store the payload array itself, \<open>strokes\<close> being
  its address (every listener of the event receives the same object), or a new empty
  array when the payload is undefined; clear stores a new empty array.

  The room-scoped handlers are registered when a join resumes, so their \<^verbatim>\<open>roomId\<close> is
  never a property name of \<^verbatim>\<open>Object.prototype\<close>: the join of such a key has thrown
  before. For the keys of closures, \<^verbatim>\<open>rooms[roomId]\<close> and \<^verbatim>\<open>whiteboardData[roomId]\<close> read
  own properties only.
\<close>
definition whiteboard_draw :: "socket_id \<Rightarrow> stroke \<Rightarrow> room_id \<Rightarrow> state \<Rightarrow> state" where
  "whiteboard_draw s stroke r st =
     socket_to_emit s r (WhiteboardDraw stroke)
       (case whiteboardData st r of
          Some a \<Rightarrow> array_push a stroke st
        | None \<Rightarrow>
            array_push (next_array st) stroke
              ((new_array [] st)\<lparr>whiteboardData := (whiteboardData st)(r \<mapsto> next_array st)\<rparr>))"

definition whiteboard_undo :: "socket_id \<Rightarrow> nat option \<Rightarrow> room_id \<Rightarrow> state \<Rightarrow> state" where
  "whiteboard_undo s strokes r st =
     socket_to_emit s r (WhiteboardUndo (map_option (arrays st) strokes))
       (case strokes of
          Some a \<Rightarrow> st\<lparr>whiteboardData := (whiteboardData st)(r \<mapsto> a)\<rparr>
        | None \<Rightarrow>
            (new_array [] st)\<lparr>whiteboardData := (whiteboardData st)(r \<mapsto> next_array st)\<rparr>)"

definition whiteboard_redo :: "socket_id \<Rightarrow> nat option \<Rightarrow> room_id \<Rightarrow> state \<Rightarrow> state" where
  "whiteboard_redo s strokes r st =
     socket_to_emit s r (WhiteboardRedo (map_option (arrays st) strokes))
       (case strokes of
          Some a \<Rightarrow> st\<lparr>whiteboardData := (whiteboardData st)(r \<mapsto> a)\<rparr>
        | None \<Rightarrow>
            (new_array [] st)\<lparr>whiteboardData := (whiteboardData st)(r \<mapsto> next_array st)\<rparr>)"

definition whiteboard_clear :: "socket_id \<Rightarrow> room_id \<Rightarrow> state \<Rightarrow> state" where
  "whiteboard_clear s r st =
     io_to_emit r WhiteboardClear
       ((new_array [] st)\<lparr>whiteboardData := (whiteboardData st)(r \<mapsto> next_array st)\<rparr>)"

text \<open>
  \<^verbatim>\<open>send-message\<close>, lines 125 to 128: the guard, then the document is built (with
  \<^verbatim>\<open>createdAt\<close> from the clock) and the handler suspends at \<^verbatim>\<open>Message.create\<close>.
\<close>
definition send_message ::
  "socket_id \<Rightarrow> string option \<Rightarrow> string option \<Rightarrow> string option \<Rightarrow> room_id \<Rightarrow> state \<Rightarrow> state" where
  "send_message s r_arg sender_arg text_arg r0 st =
     (if \<not> truthy r_arg \<or> \<not> truthy text_arg then st
      else st\<lparr>pending_creates := pending_creates st @
             [\<lparr>roomId = key_of r_arg,
               sender = (if truthy sender_arg then key_of sender_arg else ''Guest''),
               text_field = key_of text_arg,
               createdAt = clock st\<rparr>]\<rparr>)"

text \<open>
  \<^verbatim>\<open>send-message\<close>, lines 129 to 132, once the store has answered: on success the
  document is in the collection and is broadcast; a failure is logged only.
\<close>
definition send_message_resume :: "message \<Rightarrow> bool \<Rightarrow> state \<Rightarrow> state" where
  "send_message_resume msg ok st =
     (if ok
      then io_to_emit (roomId msg) (MessageNew msg)
             (st\<lparr>Message_collection := Message_collection st @ [msg]\<rparr>)
      else st)"

text \<open>The task-board handlers, lines 140 to 148.\<close>
definition tasks_get :: "socket_id \<Rightarrow> string option \<Rightarrow> room_id \<Rightarrow> state \<Rightarrow> state" where
  "tasks_get s r_arg r0 st =
     socket_emit s (TasksUpdate (or_default (taskBoards_get st (key_of r_arg)))) st"

definition tasks_update :: "socket_id \<Rightarrow> string option \<Rightarrow> board option \<Rightarrow> room_id \<Rightarrow> state \<Rightarrow> state" where
  "tasks_update s r_arg tasks_arg r0 st =
     (case tasks_arg of
        None \<Rightarrow> st
      | Some tasks \<Rightarrow>
          if \<not> truthy r_arg then st
          else io_to_emit (key_of r_arg) (TasksUpdate (Board tasks))
                 (taskBoards_set (key_of r_arg) tasks st))"

text \<open>The signaling handlers, lines 154 to 164.\<close>
definition offer :: "socket_id \<Rightarrow> string option \<Rightarrow> string \<Rightarrow> room_id \<Rightarrow> state \<Rightarrow> state" where
  "offer s target sdp r0 st =
     (if truthy target then io_to_emit (key_of target) (Offer sdp s) st else st)"

definition answer :: "socket_id \<Rightarrow> string option \<Rightarrow> string \<Rightarrow> room_id \<Rightarrow> state \<Rightarrow> state" where
  "answer s target sdp r0 st =
     (if truthy target then io_to_emit (key_of target) (Answer sdp s) st else st)"

definition ice_candidate :: "socket_id \<Rightarrow> string option \<Rightarrow> string \<Rightarrow> room_id \<Rightarrow> state \<Rightarrow> state" where
  "ice_candidate s target candidate r0 st =
     (if truthy target then io_to_emit (key_of target) (IceCandidate candidate s) st else st)"

text \<open>
  The \<^verbatim>\<open>disconnect\<close> handler, lines 169 to 184, of the closure over room \<open>r\<close>: all
  entries of the socket are filtered out, the two notifications go out, and an
  emptied room is deleted from the three stores (\<^verbatim>\<open>delete\<close> removes an own property
  and leaves the prototype alone).
\<close>
definition disconnect_handler :: "socket_id \<Rightarrow> room_id \<Rightarrow> state \<Rightarrow> state" where
  "disconnect_handler s r st =
     (case rooms st r of
        None \<Rightarrow> st
      | Some l \<Rightarrow>
          let l' = filter (\<lambda>u. socketId u \<noteq> s) l;
              st1 = st\<lparr>rooms := (rooms st)(r \<mapsto> l')\<rparr>;
              st2 = io_to_emit r (UsersUpdate l') st1;
              st3 = socket_to_emit s r (UserLeft s) st2
          in if length l' = 0
             then st3\<lparr>rooms := (rooms st3)(r := None),
                      whiteboardData := (whiteboardData st3)(r := None),
                      taskBoards := (taskBoards st3)(r := None)\<rparr>
             else st3)"

subsection \<open>The event loop\<close>

text \<open>
  An event of a socket runs every listener registered for it, in registration order:
  one per completed \<^verbatim>\<open>join-room\<close> of that socket, each with its own \<^verbatim>\<open>roomId\<close>. All of
  them receive the same payload object: the array of an undo or a redo is allocated
  once, when the event is handed to the listeners.
\<close>
fun dispatch :: "(room_id \<Rightarrow> state \<Rightarrow> state) \<Rightarrow> room_id list \<Rightarrow> state \<Rightarrow> state" where
  "dispatch h [] st = st"
| "dispatch h (r # rs) st = dispatch h rs (h r st)"

definition receive_array :: "stroke list option \<Rightarrow> state \<Rightarrow> nat option \<times> state" where
  "receive_array payload st =
     (case payload of
        None \<Rightarrow> (None, st)
      | Some xs \<Rightarrow> (Some (next_array st), new_array xs st))"

fun client_step :: "socket_id \<Rightarrow> client_event \<Rightarrow> state \<Rightarrow> state" where
  "client_step s (EvJoinRoom r u) st = join_room s r u st"
| "client_step s (EvWhiteboardDraw k) st = dispatch (whiteboard_draw s k) (listeners st s) st"
| "client_step s (EvWhiteboardUndo ks) st =
     (if listeners st s = [] then st
      else dispatch (whiteboard_undo s (fst (receive_array ks st))) (listeners st s)
             (snd (receive_array ks st)))"
| "client_step s (EvWhiteboardRedo ks) st =
     (if listeners st s = [] then st
      else dispatch (whiteboard_redo s (fst (receive_array ks st))) (listeners st s)
             (snd (receive_array ks st)))"
| "client_step s EvWhiteboardClear st = dispatch (whiteboard_clear s) (listeners st s) st"
| "client_step s (EvSendMessage r a t) st = dispatch (send_message s r a t) (listeners st s) st"
| "client_step s (EvTasksGet r) st = dispatch (tasks_get s r) (listeners st s) st"
| "client_step s (EvTasksUpdate r b) st = dispatch (tasks_update s r b) (listeners st s) st"
| "client_step s (EvOffer t d) st = dispatch (offer s t d) (listeners st s) st"
| "client_step s (EvAnswer t d) st = dispatch (answer s t d) (listeners st s) st"
| "client_step s (EvIceCandidate t c) st = dispatch (ice_candidate s t c) (listeners st s) st"

definition remove_nth :: "nat \<Rightarrow> 'a list \<Rightarrow> 'a list" where
  "remove_nth i xs = take i xs @ drop (Suc i) xs"

fun step :: "event \<Rightarrow> state \<Rightarrow> state" where
  "step (Connect s) st =
     (if s \<in> used_ids st then st
      else socket_join s s
             (st\<lparr>sockets := sockets st @ [s], used_ids := insert s (used_ids st)\<rparr>))"
| "step (Client s ev) st =
     (if s \<in> set (sockets st) then client_step s ev st else st)"
| "step (Disconnect s) st =
     (if s \<in> set (sockets st)
      then dispatch (disconnect_handler s) (listeners st s)
             (st\<lparr>sockets := removeAll s (sockets st),
                 adapter := (\<lambda>x. removeAll s (adapter st x))\<rparr>)
      else st)"
| "step (FindDone s r ok) st =
     (if (s, r) \<in> set (pending_finds st)
      then join_room_resume s r
             (if ok then Some (Message_find (Message_collection st) r) else None)
             (st\<lparr>pending_finds := remove1 (s, r) (pending_finds st)\<rparr>)
      else st)"
| "step (CreateDone i ok) st =
     (if i < length (pending_creates st)
      then send_message_resume (pending_creates st ! i) ok
             (st\<lparr>pending_creates := remove_nth i (pending_creates st)\<rparr>)
      else st)"
| "step (Tick n) st = st\<lparr>clock := clock st + n\<rparr>"

text \<open>A run of the event loop, and the states it can reach.\<close>
fun run :: "event list \<Rightarrow> state \<Rightarrow> state" where
  "run [] st = st"
| "run (e # es) st = run es (step e st)"

text \<open>The membership list of a room as \<^verbatim>\<open>members(room)\<close> reads it: empty when absent.\<close>
definition members :: "state \<Rightarrow> room_id \<Rightarrow> member list" where
  "members st r = or_empty (rooms st r)"

text \<open>What a step has added to the delivery log.\<close>
definition new_deliveries :: "state \<Rightarrow> state \<Rightarrow> (socket_id \<times> server_event) list" where
  "new_deliveries st st' = drop (length (delivered st)) (delivered st')"

subsection \<open>Invariants of the event loop\<close>

text \<open>
  Two states agree on the membership tables when the handler in between touched
  neither \<^verbatim>\<open>rooms\<close> nor the Socket.IO bookkeeping nor the suspended joins.
\<close>
definition same_tables :: "state \<Rightarrow> state \<Rightarrow> bool" where
  "same_tables st st' \<longleftrightarrow>
     rooms st' = rooms st \<and> sockets st' = sockets st \<and> adapter st' = adapter st \<and>
     listeners st' = listeners st \<and> used_ids st' = used_ids st \<and>
     pending_finds st' = pending_finds st"

text \<open>
  What every reachable state satisfies: an id the transport has not handed out
  occurs nowhere; a stored membership list is never empty; a connected socket
  has an entry in every room it holds a closure or a suspended join for; a
  connected socket with an entry in a room is in that adapter room and holds a
  closure or a suspended join for it; a connected socket is in the room of its
  own id; no socket is connected twice.
\<close>
definition inv :: "state \<Rightarrow> bool" where
  "inv st \<longleftrightarrow>
     (\<forall>s. s \<notin> used_ids st \<longrightarrow>
          s \<notin> set (sockets st) \<and> listeners st s = [] \<and>
          (\<forall>r. (s, r) \<notin> set (pending_finds st)) \<and>
          (\<forall>r. s \<notin> socketId ` set (members st r))) \<and>
     (\<forall>r. rooms st r \<noteq> Some []) \<and>
     (\<forall>s r. s \<in> set (sockets st) \<longrightarrow>
          r \<in> set (listeners st s) \<or> (s, r) \<in> set (pending_finds st) \<longrightarrow>
          s \<in> socketId ` set (members st r)) \<and>
     (\<forall>s r. s \<in> set (sockets st) \<longrightarrow> s \<in> socketId ` set (members st r) \<longrightarrow>
          s \<in> set (adapter st r) \<and>
          (r \<in> set (listeners st s) \<or> (s, r) \<in> set (pending_finds st))) \<and>
     (\<forall>s. s \<in> set (sockets st) \<longrightarrow> s \<in> set (adapter st s)) \<and>
     distinct (sockets st)"

text \<open>A stroke log is only stored for a room that has a membership list.\<close>
definition wb_inv :: "state \<Rightarrow> bool" where
  "wb_inv st \<longleftrightarrow> (\<forall>r. whiteboardData st r \<noteq> None \<longrightarrow> rooms st r \<noteq> None)"


text \<open>
  No membership list, no stroke log, no closure and no suspended join is ever keyed
  by a property name of \<^verbatim>\<open>Object.prototype\<close> (the join of such a key throws before it
  stores anything), and \<^verbatim>\<open>taskBoards\<close> never has an own property \<^verbatim>\<open>__proto__\<close>.
\<close>
definition keys_inv :: "state \<Rightarrow> bool" where
  "keys_inv st \<longleftrightarrow>
     (\<forall>r. r \<in> set Object_prototype \<longrightarrow>
          rooms st r = None \<and> whiteboardData st r = None \<and>
          (\<forall>s. r \<notin> set (listeners st s) \<and> (s, r) \<notin> set (pending_finds st))) \<and>
     taskBoards st ''__proto__'' = None"

text \<open>Every stored address of a stroke array has been allocated.\<close>
definition heap_inv :: "state \<Rightarrow> bool" where
  "heap_inv st \<longleftrightarrow> (\<forall>r a. whiteboardData st r = Some a \<longrightarrow> a < next_array st)"

text \<open>
  A join of a key that \<^verbatim>\<open>rooms\<close> inherits throws at line 65; every other join stores
  its entry.
\<close>
definition join_throws :: "state \<Rightarrow> room_id \<Rightarrow> bool" where
  "join_throws st r \<longleftrightarrow> rooms st r = None \<and> r \<in> set Object_prototype"
subsection \<open>Notions the properties are stated with\<close>

text \<open>
  The three stores hold nothing for a room: what the cleanup in the disconnect
  handler establishes.
\<close>
definition evicted :: "state \<Rightarrow> room_id \<Rightarrow> bool" where
  "evicted st r \<longleftrightarrow> rooms st r = None \<and> whiteboardData st r = None \<and> taskBoards st r = None"

text \<open>
  The removal the specification describes for \<^verbatim>\<open>leave\<close>: only the first entry of
  the connection goes. It is compared with what the disconnect handler computes.
\<close>
fun remove_first_entry :: "socket_id \<Rightarrow> member list \<Rightarrow> member list" where
  "remove_first_entry s [] = []"
| "remove_first_entry s (m # ms) = (if socketId m = s then ms else m # remove_first_entry s ms)"

text \<open>
  A run in which socket \<open>t\<close> joins room \<open>r\<close> once and socket \<open>s\<close> joins it twice, every
  join completing.
\<close>
definition two_joins :: "event list" where
  "two_joins =
     [Connect ''t'', Client ''t'' (EvJoinRoom (Some ''r'') (Some ''tom'')), FindDone ''t'' ''r'' True,
      Connect ''s'', Client ''s'' (EvJoinRoom (Some ''r'') (Some ''sam'')), FindDone ''s'' ''r'' True,
      Client ''s'' (EvJoinRoom (Some ''r'') (Some ''sam'')), FindDone ''s'' ''r'' True]"

text \<open>
  The operations of the membership table on one room, as the handlers perform
  them: a join is the synchronous part of \<^verbatim>\<open>join-room\<close> (lines 54 to 70), a leave
  is one run of the disconnect handler of a closure over the room (lines 170 to 183).
\<close>
datatype room_op = Join socket_id string | Leave socket_id

fun room_op_step :: "room_id \<Rightarrow> room_op \<Rightarrow> state \<Rightarrow> state" where
  "room_op_step r (Join s u) st = join_room s (Some r) (Some u) st"
| "room_op_step r (Leave s) st = disconnect_handler s r st"

fun run_ops :: "room_id \<Rightarrow> room_op list \<Rightarrow> state \<Rightarrow> state" where
  "run_ops r [] st = st"
| "run_ops r (x # xs) st = run_ops r xs (room_op_step r x st)"

text \<open>The joins that pass the guard (a non-empty user name), and the leaves, counted.\<close>
fun joins :: "room_op list \<Rightarrow> nat" where
  "joins [] = 0"
| "joins (Join s u # xs) = (if u = [] then joins xs else Suc (joins xs))"
| "joins (Leave s # xs) = joins xs"

fun leaves :: "room_op list \<Rightarrow> nat" where
  "leaves [] = 0"
| "leaves (Join s u # xs) = leaves xs"
| "leaves (Leave s # xs) = Suc (leaves xs)"

text \<open>The entries of the joins that no leave of the same connection follows.\<close>
fun joined_after :: "room_op list \<Rightarrow> member list" where
  "joined_after [] = []"
| "joined_after (Join s u # xs) =
     (if u \<noteq> [] \<and> Leave s \<notin> set xs
      then \<lparr>socketId = s, username = u\<rparr> # joined_after xs
      else joined_after xs)"
| "joined_after (Leave s # xs) = joined_after xs"

text \<open>
  Sequences in which a connection joins only while it is not in the room and
  leaves only while it is; \<open>J\<close> is the set of connections in the room at the start.
\<close>
fun alternating :: "socket_id set \<Rightarrow> room_op list \<Rightarrow> bool" where
  "alternating J [] = True"
| "alternating J (Join s u # xs) = (s \<notin> J \<and> u \<noteq> [] \<and> alternating (insert s J) xs)"
| "alternating J (Leave s # xs) = (s \<in> J \<and> alternating (J - {s}) xs)"

text \<open>
  A run in which room \<open>B\<close> is occupied and emptied, and then a socket that has
  joined room \<open>A\<close> only sends a task board for \<open>B\<close>.
\<close>
definition board_for_empty_room :: "event list" where
  "board_for_empty_room =
     [Connect ''s0'', Client ''s0'' (EvJoinRoom (Some ''B'') (Some ''zoe'')), FindDone ''s0'' ''B'' True,
      Disconnect ''s0'',
      Connect ''s1'', Client ''s1'' (EvJoinRoom (Some ''A'') (Some ''ann'')), FindDone ''s1'' ''A'' True,
      Client ''s1'' (EvTasksUpdate (Some ''B'')
        (Some \<lparr>todo = [''left over''], inprogress = [], done_field = []\<rparr>))]"

text \<open>
  A run in which a socket draws in a room, a second socket connects, and the
  first one is still the only member.
\<close>
definition one_member_drawing :: "event list" where
  "one_member_drawing =
     [Connect ''s'', Client ''s'' (EvJoinRoom (Some ''r'') (Some ''sam'')), FindDone ''s'' ''r'' True,
      Client ''s'' (EvWhiteboardDraw ''k''), Connect ''t'']"

text \<open>
  A run in which a socket joins a room, draws and stores a task board there, and a
  second socket connects.
\<close>
definition occupied_room :: "event list" where
  "occupied_room =
     [Connect ''s'', Client ''s'' (EvJoinRoom (Some ''r'') (Some ''sam'')), FindDone ''s'' ''r'' True,
      Client ''s'' (EvWhiteboardDraw ''k''),
      Client ''s'' (EvTasksUpdate (Some ''r'')
        (Some \<lparr>todo = [''write''], inprogress = [], done_field = []\<rparr>)),
      Connect ''t'']"

text \<open>
  The history the specification describes for \<^verbatim>\<open>loadRecent\<close>: the most recent
  up to 200 messages of the room, ascending by creation time. It is compared
  with what \<open>Message_find\<close> returns.
\<close>
definition most_recent :: "message list \<Rightarrow> room_id \<Rightarrow> message list" where
  "most_recent coll r =
     (let ms = sort_key createdAt (filter (\<lambda>m. roomId m = r) coll)
      in drop (length ms - 200) ms)"

text \<open>A collection of \<open>n\<close> messages of room \<open>r\<close>, created at the times \<open>0\<close> to \<open>n - 1\<close>.\<close>
definition history :: "nat \<Rightarrow> message list" where
  "history n =
     map (\<lambda>i. \<lparr>roomId = ''r'', sender = ''ann'', text_field = ''hi'', createdAt = i\<rparr>) [0..<n]"

text \<open>A run after which socket \<open>s1\<close> has joined room \<open>A\<close> and nothing else.\<close>
definition joined_A_only :: "event list" where
  "joined_A_only =
     [Connect ''s1'', Client ''s1'' (EvJoinRoom (Some ''A'') (Some ''ann'')), FindDone ''s1'' ''A'' True]"

text \<open>The events that bring strokes: a draw, an undo or a redo of some client.\<close>
fun strokes_arrive :: "event \<Rightarrow> bool" where
  "strokes_arrive (Client s (EvWhiteboardDraw k)) = True"
| "strokes_arrive (Client s (EvWhiteboardUndo ks)) = True"
| "strokes_arrive (Client s (EvWhiteboardRedo ks)) = True"
| "strokes_arrive e = False"

text \<open>A run after which the sockets \<open>s1\<close> and \<open>s2\<close> have both joined room \<open>r1\<close>.\<close>
definition pair_in_r1 :: "event list" where
  "pair_in_r1 =
     [Connect ''s1'', Client ''s1'' (EvJoinRoom (Some ''r1'') (Some ''ann'')), FindDone ''s1'' ''r1'' True,
      Connect ''s2'', Client ''s2'' (EvJoinRoom (Some ''r1'') (Some ''bob'')), FindDone ''s2'' ''r1'' True]"

text \<open>The same, followed by the disconnection of \<open>s2\<close>.\<close>
definition s2_gone :: "event list" where
  "s2_gone = pair_in_r1 @ [Disconnect ''s2'']"

text \<open>The same, followed by a chat message of \<open>s1\<close> that the store has not yet confirmed.\<close>
definition pair_with_pending_message :: "event list" where
  "pair_with_pending_message =
     pair_in_r1 @ [Client ''s1'' (EvSendMessage (Some ''r1'') (Some ''ann'') (Some ''hi''))]"

text \<open>
  A \<^verbatim>\<open>join-room\<close> of socket \<open>s\<close> for room \<open>r\<close> that passes the guard of line 54.
\<close>
fun valid_join :: "socket_id \<Rightarrow> room_id \<Rightarrow> event \<Rightarrow> bool" where
  "valid_join s r (Client t (EvJoinRoom (Some x) (Some u))) = (t = s \<and> x = r \<and> x \<noteq> [] \<and> u \<noteq> [])"
| "valid_join s r e = False"

text \<open>
  The entries of a socket in the membership list of a room, the closures over the
  room that the socket holds, and its joins of the room suspended at the store.
\<close>
definition entries :: "state \<Rightarrow> socket_id \<Rightarrow> room_id \<Rightarrow> nat" where
  "entries st s r = length (filter (\<lambda>m. socketId m = s) (members st r))"

definition closures :: "state \<Rightarrow> socket_id \<Rightarrow> room_id \<Rightarrow> nat" where
  "closures st s r = count_list (listeners st s) r"

definition suspended :: "state \<Rightarrow> socket_id \<Rightarrow> room_id \<Rightarrow> nat" where
  "suspended st s r = count_list (pending_finds st) (s, r)"

text \<open>
  Room \<open>x\<close> has the stroke log of room \<open>r\<close>: it is \<open>r\<close>, or \<^verbatim>\<open>whiteboardData\<close> refers to
  one array under both keys.
\<close>
definition same_log :: "state \<Rightarrow> room_id \<Rightarrow> room_id \<Rightarrow> bool" where
  "same_log st r x \<longleftrightarrow>
     x = r \<or> (whiteboardData st r \<noteq> None \<and> whiteboardData st x = whiteboardData st r)"

text \<open>
  A run in which socket \<open>s2\<close>, joined to the rooms \<open>A\<close> and \<open>B\<close>, sends an undo, and
  socket \<open>s1\<close> then joins \<open>A\<close> once and \<open>B\<close> twice.
\<close>
definition shared_log :: "event list" where
  "shared_log =
     [Connect ''s2'',
      Client ''s2'' (EvJoinRoom (Some ''A'') (Some ''bob'')), FindDone ''s2'' ''A'' True,
      Client ''s2'' (EvJoinRoom (Some ''B'') (Some ''bob'')), FindDone ''s2'' ''B'' True,
      Client ''s2'' (EvWhiteboardUndo (Some [''a''])),
      Connect ''s1'',
      Client ''s1'' (EvJoinRoom (Some ''A'') (Some ''ann'')), FindDone ''s1'' ''A'' True,
      Client ''s1'' (EvJoinRoom (Some ''B'') (Some ''ann'')), FindDone ''s1'' ''B'' True,
      Client ''s1'' (EvJoinRoom (Some ''B'') (Some ''ann'')), FindDone ''s1'' ''B'' True]"

text \<open>Two joins of room \<open>B\<close> by socket \<open>s1\<close>, both suspended before either resumes.\<close>
definition joins_B_twice :: "event list" where
  "joins_B_twice =
     [Client ''s1'' (EvJoinRoom (Some ''B'') (Some ''ann'')),
      Client ''s1'' (EvJoinRoom (Some ''B'') (Some ''amy'')),
      FindDone ''s1'' ''B'' True, FindDone ''s1'' ''B'' False]"
section \<open>Facts about the model\<close>

lemmas emit_defs = io_to_emit_def socket_to_emit_def socket_emit_def emit_to_def

lemma same_tables_refl [simp]: "same_tables st st"
  by (simp add: same_tables_def)

lemma same_tables_trans: "same_tables a b \<Longrightarrow> same_tables b c \<Longrightarrow> same_tables a c"
  by (simp add: same_tables_def)

lemma same_tables_emit [simp]:
  "same_tables st (io_to_emit x ev st)"
  "same_tables st (socket_to_emit s x ev st)"
  "same_tables st (socket_emit s ev st)"
  by (simp_all add: same_tables_def emit_defs)

lemma socket_join_fields [simp]:
  "rooms (socket_join s x st) = rooms st"
  "whiteboardData (socket_join s x st) = whiteboardData st"
  "arrays (socket_join s x st) = arrays st"
  "next_array (socket_join s x st) = next_array st"
  "taskBoards (socket_join s x st) = taskBoards st"
  "taskBoards_proto (socket_join s x st) = taskBoards_proto st"
  "sockets (socket_join s x st) = sockets st"
  "listeners (socket_join s x st) = listeners st"
  "used_ids (socket_join s x st) = used_ids st"
  "pending_finds (socket_join s x st) = pending_finds st"
  "pending_creates (socket_join s x st) = pending_creates st"
  "Message_collection (socket_join s x st) = Message_collection st"
  "clock (socket_join s x st) = clock st"
  "thrown (socket_join s x st) = thrown st"
  "delivered (socket_join s x st) = delivered st"
  by (simp_all add: socket_join_def)

lemma set_adapter_socket_join [simp]:
  "set (adapter (socket_join s x st) y) =
     (if y = x then insert s (set (adapter st y)) else set (adapter st y))"
  by (auto simp: socket_join_def)

lemma same_tables_receive [simp]: "same_tables st (snd (receive_array ks st))"
  by (simp add: same_tables_def receive_array_def new_array_def split: option.splits)

lemma dispatch_induct:
  assumes "P st" and "\<And>r st. r \<in> set rs \<Longrightarrow> P st \<Longrightarrow> P (h r st)"
  shows "P (dispatch h rs st)"
  using assms by (induction rs arbitrary: st) simp_all

lemma same_tables_dispatch:
  assumes "\<And>r st. same_tables st (h r st)"
  shows "same_tables st (dispatch h rs st)"
proof (rule dispatch_induct [where P = "same_tables st"])
  show "same_tables st st" by simp
next
  fix r st' assume "same_tables st st'"
  then show "same_tables st (h r st')" using assms same_tables_trans by blast
qed

lemma same_tables_handlers [simp]:
  "same_tables st (whiteboard_draw s k r st)"
  "same_tables st (whiteboard_undo s ks r st)"
  "same_tables st (whiteboard_redo s ks r st)"
  "same_tables st (whiteboard_clear s r st)"
  "same_tables st (send_message s a b c r st)"
  "same_tables st (tasks_get s a r st)"
  "same_tables st (tasks_update s a tb r st)"
  "same_tables st (offer s t d r st)"
  "same_tables st (answer s t d r st)"
  "same_tables st (ice_candidate s t d r st)"
  "same_tables st (send_message_resume msg ok st)"
  by (simp_all add: same_tables_def emit_defs whiteboard_draw_def whiteboard_undo_def
      whiteboard_redo_def whiteboard_clear_def send_message_def tasks_get_def tasks_update_def
      offer_def answer_def ice_candidate_def send_message_resume_def new_array_def
      array_push_def taskBoards_set_def split: option.splits)


lemma dispatch_field:
  assumes "\<And>r st. f (h r st) = f st"
  shows "f (dispatch h rs st) = f st"
  by (induction rs arbitrary: st) (simp_all add: assms)

lemma inv_same_tables: "same_tables st st' \<Longrightarrow> inv st \<Longrightarrow> inv st'"
  by (simp add: same_tables_def inv_def members_def)

lemma inv_init: "inv (init coll)"
  by (simp add: inv_def init_def members_def or_empty_def)

lemma members_socket_join [simp]: "members (socket_join s x st) r = members st r"
  by (simp add: members_def)

lemma inv_connect: "inv st \<Longrightarrow> inv (step (Connect s) st)"
  by (auto simp: inv_def members_def)

lemma join_room_throws:
  "truthy (Some r) \<Longrightarrow> truthy (Some u) \<Longrightarrow> join_throws st r \<Longrightarrow>
   join_room s (Some r) (Some u) st = (socket_join s r st)\<lparr>thrown := thrown st @ [TypeError]\<rparr>"
  by (simp add: join_room_def Let_def key_of_def join_throws_def)

lemma members_join:
  "truthy (Some r) \<Longrightarrow> truthy (Some u) \<Longrightarrow> \<not> join_throws st r \<Longrightarrow>
   members (join_room s (Some r) (Some u) st) r' =
     (if r' = r then members st r @ [\<lparr>socketId = s, username = u\<rparr>] else members st r')"
  by (auto simp: join_room_def Let_def emit_defs members_def or_empty_def key_of_def
      join_throws_def)

lemma join_fields:
  "truthy (Some r) \<Longrightarrow> truthy (Some u) \<Longrightarrow> \<not> join_throws st r \<Longrightarrow>
   sockets (join_room s (Some r) (Some u) st) = sockets st \<and>
   adapter (join_room s (Some r) (Some u) st) = adapter (socket_join s r st) \<and>
   listeners (join_room s (Some r) (Some u) st) = listeners st \<and>
   used_ids (join_room s (Some r) (Some u) st) = used_ids st \<and>
   pending_finds (join_room s (Some r) (Some u) st) = pending_finds st @ [(s, r)] \<and>
   whiteboardData (join_room s (Some r) (Some u) st) = whiteboardData st \<and>
   arrays (join_room s (Some r) (Some u) st) = arrays st \<and>
   next_array (join_room s (Some r) (Some u) st) = next_array st \<and>
   taskBoards (join_room s (Some r) (Some u) st) = taskBoards st \<and>
   taskBoards_proto (join_room s (Some r) (Some u) st) = taskBoards_proto st \<and>
   thrown (join_room s (Some r) (Some u) st) = thrown st \<and>
   rooms (join_room s (Some r) (Some u) st) =
     (rooms st)(r \<mapsto> or_empty (rooms st r) @ [\<lparr>socketId = s, username = u\<rparr>])"
  by (auto simp: join_room_def Let_def emit_defs key_of_def join_throws_def)

lemma join_keeps:
  "whiteboardData (join_room s ra ua st) = whiteboardData st \<and>
   arrays (join_room s ra ua st) = arrays st \<and>
   next_array (join_room s ra ua st) = next_array st \<and>
   taskBoards (join_room s ra ua st) = taskBoards st \<and>
   taskBoards_proto (join_room s ra ua st) = taskBoards_proto st \<and>
   sockets (join_room s ra ua st) = sockets st \<and>
   listeners (join_room s ra ua st) = listeners st \<and>
   used_ids (join_room s ra ua st) = used_ids st \<and>
   pending_creates (join_room s ra ua st) = pending_creates st \<and>
   Message_collection (join_room s ra ua st) = Message_collection st \<and>
   clock (join_room s ra ua st) = clock st"
  by (simp add: join_room_def Let_def emit_defs)

lemma inv_join:
  assumes "inv st" "s \<in> set (sockets st)"
  shows "inv (join_room s ra ua st)"
proof (cases "truthy ra \<and> truthy ua")
  case False
  then show ?thesis using assms by (auto simp: join_room_def)
next
  case True
  then obtain r u where ru: "ra = Some r" "ua = Some u"
    by (auto simp: truthy_def split: option.splits)
  with True have t: "truthy (Some r)" "truthy (Some u)" by simp_all
  show ?thesis
  proof (cases "join_throws st r")
    case True
    then show ?thesis using assms unfolding ru inv_def
      by (auto simp: join_room_throws [OF t] members_def)
  next
    case False
    then show ?thesis using assms unfolding ru inv_def
      by (auto simp: join_fields [OF t] members_join [OF t]) (meson imageI)+
  qed
qed


lemma resume_fields:
  "rooms (join_room_resume s r found st) = rooms st \<and>
   sockets (join_room_resume s r found st) = sockets st \<and>
   adapter (join_room_resume s r found st) = adapter st \<and>
   used_ids (join_room_resume s r found st) = used_ids st \<and>
   pending_finds (join_room_resume s r found st) = pending_finds st \<and>
   whiteboardData (join_room_resume s r found st) = whiteboardData st \<and>
   arrays (join_room_resume s r found st) = arrays st \<and>
   next_array (join_room_resume s r found st) = next_array st \<and>
   taskBoards (join_room_resume s r found st) = taskBoards st \<and>
   taskBoards_proto (join_room_resume s r found st) = taskBoards_proto st \<and>
   thrown (join_room_resume s r found st) = thrown st \<and>
   listeners (join_room_resume s r found st) = (listeners st)(s := listeners st s @ [r])"
  by (simp add: join_room_resume_def Let_def emit_defs)

lemma members_resume [simp]: "members (join_room_resume s r found st) r' = members st r'"
  by (simp add: members_def resume_fields)

lemma members_pending_upd [simp]:
  "members (st\<lparr>pending_finds := p\<rparr>) r = members st r"
  by (simp add: members_def)

lemma inv_find_done: "inv st \<Longrightarrow> inv (step (FindDone s r ok) st)"
  unfolding inv_def
  apply (auto simp: resume_fields dest: set_mp [OF set_remove1_subset])
  apply (meson imageI)
  done

lemma disconnect_fields:
  "sockets (disconnect_handler s r st) = sockets st \<and>
   adapter (disconnect_handler s r st) = adapter st \<and>
   listeners (disconnect_handler s r st) = listeners st \<and>
   used_ids (disconnect_handler s r st) = used_ids st \<and>
   arrays (disconnect_handler s r st) = arrays st \<and>
   next_array (disconnect_handler s r st) = next_array st \<and>
   taskBoards_proto (disconnect_handler s r st) = taskBoards_proto st \<and>
   thrown (disconnect_handler s r st) = thrown st \<and>
   pending_finds (disconnect_handler s r st) = pending_finds st"
  by (simp add: disconnect_handler_def Let_def emit_defs split: option.splits)

lemma rooms_disconnect:
  "rooms (disconnect_handler s r st) =
     (case rooms st r of
        None \<Rightarrow> rooms st
      | Some l \<Rightarrow> if filter (\<lambda>u. socketId u \<noteq> s) l = [] then (rooms st)(r := None)
                  else (rooms st)(r \<mapsto> filter (\<lambda>u. socketId u \<noteq> s) l))"
  by (simp add: disconnect_handler_def Let_def emit_defs split: option.splits)

lemma members_disconnect:
  "members (disconnect_handler s r st) r' =
     (if r' = r then filter (\<lambda>u. socketId u \<noteq> s) (members st r) else members st r')"
  by (simp add: members_def rooms_disconnect or_empty_def split: option.splits)

lemma entry_filter:
  "(t \<in> socketId ` {x \<in> set l. socketId x \<noteq> s}) = (t \<noteq> s \<and> t \<in> socketId ` set l)"
  by auto

lemma inv_disconnect_handler:
  assumes "inv st" "s \<notin> set (sockets st)"
  shows "inv (disconnect_handler s r st) \<and> s \<notin> set (sockets (disconnect_handler s r st))"
  using assms unfolding inv_def
  by (auto simp: disconnect_fields members_disconnect rooms_disconnect entry_filter
      split: option.splits)

lemma inv_disconnect:
  assumes "inv st"
  shows "inv (step (Disconnect s) st)"
proof (cases "s \<in> set (sockets st)")
  case False
  then show ?thesis using assms by simp
next
  case True
  let ?st0 = "st\<lparr>sockets := removeAll s (sockets st),
                   adapter := (\<lambda>x. removeAll s (adapter st x))\<rparr>"
  have "inv ?st0 \<and> s \<notin> set (sockets ?st0)"
    using assms unfolding inv_def by (auto simp: members_def distinct_removeAll)
  then have "inv (dispatch (disconnect_handler s) (listeners st s) ?st0) \<and>
             s \<notin> set (sockets (dispatch (disconnect_handler s) (listeners st s) ?st0))"
    by (rule dispatch_induct) (simp add: inv_disconnect_handler)
  with True show ?thesis by simp
qed

lemma same_tables_client:
  assumes "\<And>r u. ev \<noteq> EvJoinRoom r u"
  shows "same_tables st (client_step s ev st)"
proof (cases ev)
  case (EvWhiteboardUndo ks)
  have "same_tables (snd (receive_array ks st))
          (dispatch (whiteboard_undo s (fst (receive_array ks st))) (listeners st s)
             (snd (receive_array ks st)))"
    by (rule same_tables_dispatch) simp
  with same_tables_receive have
    "same_tables st (dispatch (whiteboard_undo s (fst (receive_array ks st))) (listeners st s)
             (snd (receive_array ks st)))"
    by (rule same_tables_trans)
  then show ?thesis unfolding EvWhiteboardUndo by simp
next
  case (EvWhiteboardRedo ks)
  have "same_tables (snd (receive_array ks st))
          (dispatch (whiteboard_redo s (fst (receive_array ks st))) (listeners st s)
             (snd (receive_array ks st)))"
    by (rule same_tables_dispatch) simp
  with same_tables_receive have
    "same_tables st (dispatch (whiteboard_redo s (fst (receive_array ks st))) (listeners st s)
             (snd (receive_array ks st)))"
    by (rule same_tables_trans)
  then show ?thesis unfolding EvWhiteboardRedo by simp
qed (use assms in \<open>auto simp: same_tables_dispatch\<close>)

lemma inv_step: "inv st \<Longrightarrow> inv (step e st)"
proof (cases e)
  case (Connect s)
  assume "inv st" then show ?thesis unfolding Connect by (rule inv_connect)
next
  case (Client s ev)
  assume i: "inv st"
  show ?thesis
  proof (cases "\<exists>r u. ev = EvJoinRoom r u")
    case True
    then show ?thesis using i Client by (auto simp: inv_join)
  next
    case False
    then have "same_tables st (client_step s ev st)"
      by (intro same_tables_client) simp
    then show ?thesis using i Client inv_same_tables by auto
  qed
next
  case (Disconnect s)
  assume "inv st" then show ?thesis unfolding Disconnect by (rule inv_disconnect)
next
  case (FindDone s r ok)
  assume "inv st" then show ?thesis unfolding FindDone by (rule inv_find_done)
next
  case (CreateDone i ok)
  assume i: "inv st"
  have "same_tables st (step (CreateDone i ok) st)"
    using same_tables_handlers(11) [of "st\<lparr>pending_creates := remove_nth i (pending_creates st)\<rparr>"]
    by (simp add: same_tables_def)
  then show ?thesis using i CreateDone inv_same_tables by blast
next
  case (Tick n)
  assume "inv st" then show ?thesis unfolding Tick by (simp add: inv_def members_def)
qed

lemma inv_run: "inv st \<Longrightarrow> inv (run evs st)"
  by (induction evs arbitrary: st) (simp_all add: inv_step)


lemma wb_fields [simp]:
  "whiteboardData (send_message s a b c r st) = whiteboardData st"
  "whiteboardData (tasks_get s a r st) = whiteboardData st"
  "whiteboardData (tasks_update s a tb r st) = whiteboardData st"
  "whiteboardData (offer s t d r st) = whiteboardData st"
  "whiteboardData (answer s t d r st) = whiteboardData st"
  "whiteboardData (ice_candidate s t d r st) = whiteboardData st"
  "whiteboardData (send_message_resume msg ok st) = whiteboardData st"
  by (simp_all add: emit_defs send_message_def tasks_get_def tasks_update_def
      offer_def answer_def ice_candidate_def send_message_resume_def taskBoards_set_def
      split: option.splits)

lemma arrays_fields [simp]:
  "arrays (send_message s a b c r st) = arrays st"
  "arrays (tasks_get s a r st) = arrays st"
  "arrays (tasks_update s a tb r st) = arrays st"
  "arrays (offer s t d r st) = arrays st"
  "arrays (answer s t d r st) = arrays st"
  "arrays (ice_candidate s t d r st) = arrays st"
  "arrays (send_message_resume msg ok st) = arrays st"
  "next_array (send_message s a b c r st) = next_array st"
  "next_array (tasks_get s a r st) = next_array st"
  "next_array (tasks_update s a tb r st) = next_array st"
  "next_array (offer s t d r st) = next_array st"
  "next_array (answer s t d r st) = next_array st"
  "next_array (ice_candidate s t d r st) = next_array st"
  "next_array (send_message_resume msg ok st) = next_array st"
  by (simp_all add: emit_defs send_message_def tasks_get_def tasks_update_def
      offer_def answer_def ice_candidate_def send_message_resume_def taskBoards_set_def
      split: option.splits)

lemma wb_whiteboard_handlers:
  "whiteboardData (whiteboard_draw s k r st) =
     (case whiteboardData st r of
        Some a \<Rightarrow> whiteboardData st
      | None \<Rightarrow> (whiteboardData st)(r \<mapsto> next_array st))"
  "whiteboardData (whiteboard_undo s p r st) =
     (whiteboardData st)(r \<mapsto> (case p of Some a \<Rightarrow> a | None \<Rightarrow> next_array st))"
  "whiteboardData (whiteboard_redo s p r st) =
     (whiteboardData st)(r \<mapsto> (case p of Some a \<Rightarrow> a | None \<Rightarrow> next_array st))"
  "whiteboardData (whiteboard_clear s r st) = (whiteboardData st)(r \<mapsto> next_array st)"
  by (simp_all add: emit_defs whiteboard_draw_def whiteboard_undo_def whiteboard_redo_def
      whiteboard_clear_def new_array_def array_push_def split: option.splits)

lemma wb_other_room:
  "r' \<noteq> r \<Longrightarrow> whiteboardData (whiteboard_draw s k r st) r' = whiteboardData st r'"
  "r' \<noteq> r \<Longrightarrow> whiteboardData (whiteboard_undo s p r st) r' = whiteboardData st r'"
  "r' \<noteq> r \<Longrightarrow> whiteboardData (whiteboard_redo s p r st) r' = whiteboardData st r'"
  "r' \<noteq> r \<Longrightarrow> whiteboardData (whiteboard_clear s r st) r' = whiteboardData st r'"
  by (simp_all add: wb_whiteboard_handlers split: option.splits)

lemma wb_disconnect:
  "whiteboardData (disconnect_handler s r st) =
     (case rooms st r of
        None \<Rightarrow> whiteboardData st
      | Some l \<Rightarrow> if filter (\<lambda>u. socketId u \<noteq> s) l = [] then (whiteboardData st)(r := None)
                  else whiteboardData st)"
  by (simp add: disconnect_handler_def Let_def emit_defs split: option.splits)

lemma tb_disconnect:
  "taskBoards (disconnect_handler s r st) =
     (case rooms st r of
        None \<Rightarrow> taskBoards st
      | Some l \<Rightarrow> if filter (\<lambda>u. socketId u \<noteq> s) l = [] then (taskBoards st)(r := None)
                  else taskBoards st)"
  by (simp add: disconnect_handler_def Let_def emit_defs split: option.splits)

lemma listed_room_exists:
  assumes "inv st" "s \<in> set (sockets st)" "r \<in> set (listeners st s)"
  shows "rooms st r \<noteq> None"
proof -
  from assms have "s \<in> socketId ` set (members st r)" unfolding inv_def by blast
  then show ?thesis by (cases "rooms st r") (auto simp: members_def or_empty_def)
qed

lemma wb_inv_whiteboard:
  assumes "inv st" "s \<in> set (sockets st)" "same_tables st st0" "wb_inv st0"
    and h: "\<And>r st'. same_tables st' (h r st') \<and>
              (\<forall>r'. r' \<noteq> r \<longrightarrow> whiteboardData (h r st') r' = whiteboardData st' r')"
  shows "wb_inv (dispatch h (listeners st s) st0)"
proof -
  have "same_tables st (dispatch h (listeners st s) st0) \<and>
        wb_inv (dispatch h (listeners st s) st0)"
  proof (rule dispatch_induct)
    show "same_tables st st0 \<and> wb_inv st0" using assms by simp
  next
    fix r st' assume r: "r \<in> set (listeners st s)" and p: "same_tables st st' \<and> wb_inv st'"
    from r assms have "rooms st r \<noteq> None" by (simp add: listed_room_exists)
    with p have ex: "rooms st' r \<noteq> None" by (simp add: same_tables_def)
    have st: "same_tables st (h r st')" using p h same_tables_trans by blast
    have "wb_inv (h r st')"
      unfolding wb_inv_def
    proof (intro allI impI)
      fix r' assume w: "whiteboardData (h r st') r' \<noteq> None"
      have rr: "rooms (h r st') = rooms st'" using h [of st' r] by (simp add: same_tables_def)
      show "rooms (h r st') r' \<noteq> None"
      proof (cases "r' = r")
        case True then show ?thesis using ex rr by simp
      next
        case False
        with w h [of st' r] have "whiteboardData st' r' \<noteq> None" by simp
        with p show ?thesis unfolding wb_inv_def rr by blast
      qed
    qed
    with st show "same_tables st (h r st') \<and> wb_inv (h r st')" by simp
  qed
  then show ?thesis by simp
qed

lemma wb_inv_disconnect_handler: "wb_inv st \<Longrightarrow> wb_inv (disconnect_handler s r st)"
  unfolding wb_inv_def by (auto simp: wb_disconnect rooms_disconnect split: option.splits if_splits)

lemma wb_inv_unchanged:
  "same_tables st st' \<Longrightarrow> whiteboardData st' = whiteboardData st \<Longrightarrow> wb_inv st \<Longrightarrow> wb_inv st'"
  by (simp add: wb_inv_def same_tables_def)

lemma wb_receive [simp]: "whiteboardData (snd (receive_array ks st)) = whiteboardData st"
  by (simp add: receive_array_def new_array_def split: option.splits)

lemma wb_inv_receive: "wb_inv st \<Longrightarrow> wb_inv (snd (receive_array ks st))"
  by (rule wb_inv_unchanged [of st]) simp_all

lemma wb_inv_join:
  assumes "wb_inv st"
  shows "wb_inv (join_room s ra ua st)"
proof (cases "truthy ra \<and> truthy ua")
  case False
  then show ?thesis using assms by (auto simp: join_room_def)
next
  case True
  then obtain r u where ru: "ra = Some r" "ua = Some u"
    by (auto simp: truthy_def split: option.splits)
  with True have t: "truthy (Some r)" "truthy (Some u)" by simp_all
  show ?thesis
  proof (cases "join_throws st r")
    case True
    then show ?thesis using assms unfolding ru wb_inv_def
      by (simp add: join_room_throws [OF t])
  next
    case False
    then show ?thesis using assms unfolding ru wb_inv_def
      by (simp add: join_fields [OF t])
  qed
qed

lemma wb_inv_client:
  assumes "inv st" "wb_inv st" "s \<in> set (sockets st)"
  shows "wb_inv (client_step s ev st)"
proof (cases ev)
  case (EvJoinRoom ra ua)
  then show ?thesis using assms(2) by (simp add: wb_inv_join)
next
  case (EvWhiteboardDraw k)
  show ?thesis unfolding EvWhiteboardDraw client_step.simps
    by (rule wb_inv_whiteboard [OF assms(1,3) same_tables_refl assms(2)])
       (simp add: wb_other_room)
next
  case (EvWhiteboardUndo k)
  have "wb_inv (dispatch (whiteboard_undo s (fst (receive_array k st))) (listeners st s)
                 (snd (receive_array k st)))"
    by (rule wb_inv_whiteboard [OF assms(1,3) same_tables_receive wb_inv_receive [OF assms(2)]])
       (simp add: wb_other_room)
  then show ?thesis unfolding EvWhiteboardUndo client_step.simps using assms(2) by simp
next
  case (EvWhiteboardRedo k)
  have "wb_inv (dispatch (whiteboard_redo s (fst (receive_array k st))) (listeners st s)
                 (snd (receive_array k st)))"
    by (rule wb_inv_whiteboard [OF assms(1,3) same_tables_receive wb_inv_receive [OF assms(2)]])
       (simp add: wb_other_room)
  then show ?thesis unfolding EvWhiteboardRedo client_step.simps using assms(2) by simp
next
  case EvWhiteboardClear
  show ?thesis unfolding EvWhiteboardClear client_step.simps
    by (rule wb_inv_whiteboard [OF assms(1,3) same_tables_refl assms(2)])
       (simp add: wb_other_room)
qed (auto intro!: wb_inv_unchanged [OF _ _ assms(2)] simp: same_tables_dispatch dispatch_field)

lemma wb_inv_step:
  assumes "inv st" "wb_inv st"
  shows "wb_inv (step e st)"
proof (cases e)
  case (Connect s)
  then show ?thesis using assms(2) by (simp add: wb_inv_def)
next
  case (Client s ev)
  then show ?thesis using assms by (simp add: wb_inv_client)
next
  case (Disconnect s)
  have "wb_inv (dispatch (disconnect_handler s) (listeners st s)
          (st\<lparr>sockets := removeAll s (sockets st),
             adapter := (\<lambda>x. removeAll s (adapter st x))\<rparr>))"
    by (rule dispatch_induct) (use assms(2) in \<open>simp_all add: wb_inv_def wb_inv_disconnect_handler [unfolded wb_inv_def]\<close>)
  then show ?thesis using assms(2) Disconnect by simp
next
  case (FindDone s r ok)
  then show ?thesis using assms(2) by (simp add: wb_inv_def resume_fields)
next
  case (CreateDone i ok)
  then show ?thesis using assms(2)
    by (simp add: wb_inv_def send_message_resume_def emit_defs)
next
  case (Tick n)
  then show ?thesis using assms(2) by (simp add: wb_inv_def)
qed

lemma invs_run: "inv st \<Longrightarrow> wb_inv st \<Longrightarrow> inv (run evs st) \<and> wb_inv (run evs st)"
  by (induction evs arbitrary: st) (simp_all add: inv_step wb_inv_step)

lemma wb_inv_init: "wb_inv (init coll)"
  by (simp add: wb_inv_def init_def)

lemma heap_inv_init: "heap_inv (init coll)"
  by (simp add: heap_inv_def init_def)

lemma heap_inv_kept:
  "(\<And>r a. whiteboardData st' r = Some a \<Longrightarrow> whiteboardData st r = Some a) \<Longrightarrow>
   next_array st \<le> next_array st' \<Longrightarrow> heap_inv st \<Longrightarrow> heap_inv st'"
  unfolding heap_inv_def by (meson less_le_trans)

lemma heap_inv_draw: "heap_inv st \<Longrightarrow> heap_inv (whiteboard_draw s k r st)"
  by (auto simp: heap_inv_def whiteboard_draw_def emit_defs new_array_def array_push_def
      less_Suc_eq split: option.splits)

lemma heap_inv_clear: "heap_inv st \<Longrightarrow> heap_inv (whiteboard_clear s r st)"
  by (auto simp: heap_inv_def whiteboard_clear_def emit_defs new_array_def less_Suc_eq)

lemma heap_inv_undo:
  "heap_inv st \<and> (\<forall>a. p = Some a \<longrightarrow> a < next_array st) \<Longrightarrow>
   heap_inv (whiteboard_undo s p r st) \<and>
   (\<forall>a. p = Some a \<longrightarrow> a < next_array (whiteboard_undo s p r st))"
  by (auto simp: heap_inv_def whiteboard_undo_def emit_defs new_array_def less_Suc_eq
      split: option.splits)

lemma heap_inv_redo:
  "heap_inv st \<and> (\<forall>a. p = Some a \<longrightarrow> a < next_array st) \<Longrightarrow>
   heap_inv (whiteboard_redo s p r st) \<and>
   (\<forall>a. p = Some a \<longrightarrow> a < next_array (whiteboard_redo s p r st))"
  by (auto simp: heap_inv_def whiteboard_redo_def emit_defs new_array_def less_Suc_eq
      split: option.splits)

lemma heap_inv_receive:
  "heap_inv st \<Longrightarrow>
   heap_inv (snd (receive_array ks st)) \<and>
   (\<forall>a. fst (receive_array ks st) = Some a \<longrightarrow> a < next_array (snd (receive_array ks st)))"
  by (auto simp: heap_inv_def receive_array_def new_array_def less_Suc_eq split: option.splits)

lemma heap_inv_disconnect_handler: "heap_inv st \<Longrightarrow> heap_inv (disconnect_handler s r st)"
  by (auto simp: heap_inv_def wb_disconnect disconnect_fields split: option.splits if_splits)

lemma heap_inv_client:
  assumes "heap_inv st"
  shows "heap_inv (client_step s ev st)"
proof (cases ev)
  case (EvJoinRoom ra ua)
  then show ?thesis using assms by (simp add: heap_inv_def join_keeps)
next
  case (EvWhiteboardDraw k)
  show ?thesis unfolding EvWhiteboardDraw client_step.simps
    by (rule dispatch_induct) (simp_all add: assms heap_inv_draw)
next
  case (EvWhiteboardUndo ks)
  let ?p = "fst (receive_array ks st)"
  have "heap_inv (dispatch (whiteboard_undo s ?p) (listeners st s) (snd (receive_array ks st))) \<and>
        (\<forall>a. ?p = Some a \<longrightarrow>
           a < next_array (dispatch (whiteboard_undo s ?p) (listeners st s)
                 (snd (receive_array ks st))))"
    by (rule dispatch_induct) (rule heap_inv_receive [OF assms], rule heap_inv_undo)
  then show ?thesis unfolding EvWhiteboardUndo using assms by simp
next
  case (EvWhiteboardRedo ks)
  let ?p = "fst (receive_array ks st)"
  have "heap_inv (dispatch (whiteboard_redo s ?p) (listeners st s) (snd (receive_array ks st))) \<and>
        (\<forall>a. ?p = Some a \<longrightarrow>
           a < next_array (dispatch (whiteboard_redo s ?p) (listeners st s)
                 (snd (receive_array ks st))))"
    by (rule dispatch_induct) (rule heap_inv_receive [OF assms], rule heap_inv_redo)
  then show ?thesis unfolding EvWhiteboardRedo using assms by simp
next
  case EvWhiteboardClear
  show ?thesis unfolding EvWhiteboardClear client_step.simps
    by (rule dispatch_induct) (simp_all add: assms heap_inv_clear)
qed (use assms in \<open>simp_all add: heap_inv_def dispatch_field\<close>)

lemma heap_inv_step: "heap_inv st \<Longrightarrow> heap_inv (step e st)"
proof (cases e)
  case (Connect s)
  assume "heap_inv st" then show ?thesis unfolding Connect by (simp add: heap_inv_def)
next
  case (Client s ev)
  assume "heap_inv st" then show ?thesis unfolding Client by (simp add: heap_inv_client)
next
  case (Disconnect s)
  assume h: "heap_inv st"
  have "heap_inv (dispatch (disconnect_handler s) (listeners st s)
          (st\<lparr>sockets := removeAll s (sockets st),
             adapter := (\<lambda>x. removeAll s (adapter st x))\<rparr>))"
    by (rule dispatch_induct) (use h in \<open>simp_all add: heap_inv_disconnect_handler\<close>, simp add: heap_inv_def)
  then show ?thesis using h Disconnect by simp
next
  case (FindDone s r ok)
  assume "heap_inv st" then show ?thesis unfolding FindDone
    by (simp add: heap_inv_def resume_fields)
next
  case (CreateDone i ok)
  assume "heap_inv st" then show ?thesis unfolding CreateDone by (simp add: heap_inv_def)
next
  case (Tick n)
  assume "heap_inv st" then show ?thesis unfolding Tick by (simp add: heap_inv_def)
qed

lemma heap_inv_run: "heap_inv st \<Longrightarrow> heap_inv (run evs st)"
  by (induction evs arbitrary: st) (simp_all add: heap_inv_step)

lemma keys_inv_init: "keys_inv (init coll)"
  by (simp add: keys_inv_def init_def)

lemma keys_inv_join: "keys_inv st \<Longrightarrow> keys_inv (join_room s ra ua st)"
  by (auto simp: keys_inv_def join_room_def Let_def emit_defs)

lemma keys_inv_whiteboard:
  "keys_inv st \<Longrightarrow> r \<notin> set Object_prototype \<Longrightarrow> keys_inv (whiteboard_draw s k r st)"
  "keys_inv st \<Longrightarrow> r \<notin> set Object_prototype \<Longrightarrow> keys_inv (whiteboard_undo s p r st)"
  "keys_inv st \<Longrightarrow> r \<notin> set Object_prototype \<Longrightarrow> keys_inv (whiteboard_redo s p r st)"
  "keys_inv st \<Longrightarrow> r \<notin> set Object_prototype \<Longrightarrow> keys_inv (whiteboard_clear s r st)"
  by (auto simp: keys_inv_def whiteboard_draw_def whiteboard_undo_def whiteboard_redo_def
      whiteboard_clear_def emit_defs new_array_def array_push_def split: option.splits)

lemma keys_inv_others:
  "keys_inv st \<Longrightarrow> keys_inv (send_message s a b c r st)"
  "keys_inv st \<Longrightarrow> keys_inv (tasks_get s a r st)"
  "keys_inv st \<Longrightarrow> keys_inv (tasks_update s a tb r st)"
  "keys_inv st \<Longrightarrow> keys_inv (offer s t d r st)"
  "keys_inv st \<Longrightarrow> keys_inv (answer s t d r st)"
  "keys_inv st \<Longrightarrow> keys_inv (ice_candidate s t d r st)"
  "keys_inv st \<Longrightarrow> keys_inv (send_message_resume msg ok st)"
  "keys_inv st \<Longrightarrow> keys_inv (disconnect_handler s r st)"
  "keys_inv st \<Longrightarrow> keys_inv (snd (receive_array ks st))"
  by (auto simp: keys_inv_def emit_defs send_message_def tasks_get_def tasks_update_def
      offer_def answer_def ice_candidate_def send_message_resume_def taskBoards_set_def
      disconnect_handler_def Let_def receive_array_def new_array_def split: option.splits)

lemma keys_inv_listed:
  "keys_inv st \<Longrightarrow> r \<in> set (listeners st s) \<Longrightarrow> r \<notin> set Object_prototype"
  unfolding keys_inv_def by blast

lemma keys_inv_client:
  assumes "keys_inv st"
  shows "keys_inv (client_step s ev st)"
proof (cases ev)
  case (EvJoinRoom ra ua)
  then show ?thesis using assms by (simp add: keys_inv_join)
next
  case (EvWhiteboardDraw k)
  show ?thesis unfolding EvWhiteboardDraw client_step.simps
    by (rule dispatch_induct) (simp_all add: assms keys_inv_whiteboard keys_inv_listed [OF assms])
next
  case (EvWhiteboardUndo ks)
  have "keys_inv (dispatch (whiteboard_undo s (fst (receive_array ks st))) (listeners st s)
          (snd (receive_array ks st)))"
    by (rule dispatch_induct)
       (simp_all add: assms keys_inv_others keys_inv_whiteboard keys_inv_listed [OF assms])
  then show ?thesis unfolding EvWhiteboardUndo using assms by simp
next
  case (EvWhiteboardRedo ks)
  have "keys_inv (dispatch (whiteboard_redo s (fst (receive_array ks st))) (listeners st s)
          (snd (receive_array ks st)))"
    by (rule dispatch_induct)
       (simp_all add: assms keys_inv_others keys_inv_whiteboard keys_inv_listed [OF assms])
  then show ?thesis unfolding EvWhiteboardRedo using assms by simp
next
  case EvWhiteboardClear
  show ?thesis unfolding EvWhiteboardClear client_step.simps
    by (rule dispatch_induct) (simp_all add: assms keys_inv_whiteboard keys_inv_listed [OF assms])
next
  case (EvSendMessage a b c)
  show ?thesis unfolding EvSendMessage client_step.simps
    by (rule dispatch_induct) (simp_all add: assms keys_inv_others)
next
  case (EvTasksGet a)
  show ?thesis unfolding EvTasksGet client_step.simps
    by (rule dispatch_induct) (simp_all add: assms keys_inv_others)
next
  case (EvTasksUpdate a b)
  show ?thesis unfolding EvTasksUpdate client_step.simps
    by (rule dispatch_induct) (simp_all add: assms keys_inv_others)
next
  case (EvOffer a b)
  show ?thesis unfolding EvOffer client_step.simps
    by (rule dispatch_induct) (simp_all add: assms keys_inv_others)
next
  case (EvAnswer a b)
  show ?thesis unfolding EvAnswer client_step.simps
    by (rule dispatch_induct) (simp_all add: assms keys_inv_others)
next
  case (EvIceCandidate a b)
  show ?thesis unfolding EvIceCandidate client_step.simps
    by (rule dispatch_induct) (simp_all add: assms keys_inv_others)
qed

lemma keys_inv_step: "keys_inv st \<Longrightarrow> keys_inv (step e st)"
proof (cases e)
  case (Connect s)
  assume "keys_inv st" then show ?thesis unfolding Connect by (simp add: keys_inv_def)
next
  case (Client s ev)
  assume "keys_inv st" then show ?thesis unfolding Client by (simp add: keys_inv_client)
next
  case (Disconnect s)
  assume h: "keys_inv st"
  have "keys_inv (dispatch (disconnect_handler s) (listeners st s)
          (st\<lparr>sockets := removeAll s (sockets st),
             adapter := (\<lambda>x. removeAll s (adapter st x))\<rparr>))"
    by (rule dispatch_induct) (use h in \<open>simp_all add: keys_inv_others\<close>, simp add: keys_inv_def)
  then show ?thesis using h Disconnect by simp
next
  case (FindDone s r ok)
  assume "keys_inv st" then show ?thesis unfolding FindDone
    by (auto simp: keys_inv_def resume_fields dest: set_mp [OF set_remove1_subset])
next
  case (CreateDone i ok)
  assume h: "keys_inv st"
  have "keys_inv (st\<lparr>pending_creates := remove_nth i (pending_creates st)\<rparr>)"
    using h by (simp add: keys_inv_def)
  then show ?thesis unfolding CreateDone using h by (simp add: keys_inv_others)
next
  case (Tick n)
  assume "keys_inv st" then show ?thesis unfolding Tick by (simp add: keys_inv_def)
qed

lemma keys_inv_run: "keys_inv st \<Longrightarrow> keys_inv (run evs st)"
  by (induction evs arbitrary: st) (simp_all add: keys_inv_step)

subsection \<open>Dispatch and emission\<close>

text \<open>All handler definitions at once, for evaluating runs.\<close>
lemmas handler_defs = join_room_def join_room_resume_def whiteboard_draw_def whiteboard_undo_def
  whiteboard_redo_def whiteboard_clear_def send_message_def send_message_resume_def tasks_get_def
  tasks_update_def offer_def answer_def ice_candidate_def disconnect_handler_def
  io_to_emit_def socket_to_emit_def socket_emit_def emit_to_def in_room_def
  truthy_def or_empty_def or_default_def key_of_def init_def Let_def remove_nth_def
  socket_join_def new_array_def array_push_def receive_array_def getStrokes_def
  taskBoards_get_def taskBoards_set_def board_property_def Object_prototype_def

lemma dispatch_id:
  assumes "\<And>r st. h r st = st"
  shows "dispatch h rs st = st"
  by (induction rs arbitrary: st) (simp_all add: assms)

lemma dispatch_step:
  "h x st = st1 \<Longrightarrow> dispatch h xs st1 = st2 \<Longrightarrow> dispatch h (x # xs) st = st2"
  by simp

lemma in_room_emit [simp]:
  "in_room (io_to_emit x ev st) y = in_room st y"
  "in_room (socket_to_emit s x ev st) y = in_room st y"
  "in_room (socket_emit s ev st) y = in_room st y"
  by (simp_all add: emit_defs in_room_def)

lemma in_room_delivered [simp]: "in_room (st\<lparr>delivered := d\<rparr>) x = in_room st x"
  by (simp add: in_room_def)

lemma in_room_whiteboard [simp]:
  "in_room (whiteboard_draw s k r st) y = in_room st y"
  "in_room (whiteboard_undo s ks r st) y = in_room st y"
  "in_room (whiteboard_redo s ks r st) y = in_room st y"
  "in_room (whiteboard_clear s r st) y = in_room st y"
  by (simp_all add: in_room_def whiteboard_draw_def whiteboard_undo_def whiteboard_redo_def
      whiteboard_clear_def emit_defs new_array_def array_push_def split: option.splits)

lemma in_room_receive [simp]: "in_room (snd (receive_array ks st)) y = in_room st y"
  by (simp add: in_room_def receive_array_def new_array_def split: option.splits)

lemma in_room_taskBoards_set [simp]: "in_room (taskBoards_set k b st) y = in_room st y"
  by (simp add: in_room_def taskBoards_set_def)

lemma in_room_disconnect_handler [simp]: "in_room (disconnect_handler s r st) y = in_room st y"
  by (simp add: in_room_def disconnect_fields)

lemma members_in_room:
  assumes "inv st" "t \<in> set (sockets st)" "t \<in> socketId ` set (members st r)"
  shows "t \<in> set (in_room st r)"
proof -
  from assms have "t \<in> set (adapter st r)" unfolding inv_def by blast
  with assms(2) show ?thesis by (simp add: in_room_def)
qed

lemma own_room:
  assumes "inv st" "x \<in> set (sockets st)"
  shows "x \<in> set (in_room st x)"
  using assms unfolding inv_def by (simp add: in_room_def)

lemma tasks_update_stored:
  "r \<noteq> [] \<Longrightarrow>
   tasks_update s (Some r) (Some b) q st =
     (taskBoards_set r b st)\<lparr>delivered := delivered st @
        map (\<lambda>t. (t, TasksUpdate (Board b))) (in_room st r)\<rparr>"
  by (simp add: tasks_update_def truthy_def key_of_def emit_defs in_room_def taskBoards_set_def)

lemma taskBoards_set_twice:
  "taskBoards_set r b ((taskBoards_set r b st)\<lparr>delivered := d\<rparr>)\<lparr>delivered := d'\<rparr> =
   (taskBoards_set r b st)\<lparr>delivered := d'\<rparr>"
  by (simp add: taskBoards_set_def)

lemma delivered_taskBoards_set [simp]: "delivered (taskBoards_set r b st) = delivered st"
  by (simp add: taskBoards_set_def)

lemma dispatch_tasks_update:
  assumes "r \<noteq> []"
  shows "dispatch (tasks_update s (Some r) (Some b)) rs st =
     (if rs = [] then st
      else (taskBoards_set r b st)\<lparr>delivered := delivered st @
                concat (replicate (length rs)
                  (map (\<lambda>t. (t, TasksUpdate (Board b))) (in_room st r)))\<rparr>)"
proof (induction rs arbitrary: st)
  case Nil
  show ?case by simp
next
  case (Cons x xs)
  let ?h = "tasks_update s (Some r) (Some b)"
  let ?X = "map (\<lambda>t. (t, TasksUpdate (Board b))) (in_room st r)"
  let ?st1 = "(taskBoards_set r b st)\<lparr>delivered := delivered st @ ?X\<rparr>"
  have i: "in_room ?st1 r = in_room st r" by simp
  have "dispatch ?h (x # xs) st =
        (if xs = [] then ?st1
         else (taskBoards_set r b ?st1)\<lparr>delivered := delivered ?st1 @
                   concat (replicate (length xs)
                     (map (\<lambda>t. (t, TasksUpdate (Board b))) (in_room ?st1 r)))\<rparr>)"
    by (rule dispatch_step [OF tasks_update_stored [OF assms] Cons.IH])
  also have "\<dots> = (taskBoards_set r b st)\<lparr>delivered := delivered st @
                 concat (replicate (length (x # xs)) ?X)\<rparr>"
    unfolding i taskBoards_set_twice by simp
  finally show ?case by simp
qed

lemma dispatch_io_to_emit:
  assumes "\<And>r0 st. h r0 st = io_to_emit x ev st"
  shows "dispatch h rs st =
           st\<lparr>delivered := delivered st @
                concat (replicate (length rs) (map (\<lambda>t. (t, ev)) (in_room st x)))\<rparr>"
proof (induction rs arbitrary: st)
  case Nil
  show ?case by simp
next
  case (Cons a rs)
  let ?st1 = "io_to_emit x ev st"
  have "dispatch h (a # rs) st =
          ?st1\<lparr>delivered := delivered ?st1 @
                concat (replicate (length rs) (map (\<lambda>t. (t, ev)) (in_room ?st1 x)))\<rparr>"
    by (rule dispatch_step [OF assms Cons.IH])
  also have "\<dots> = st\<lparr>delivered := delivered st @
                concat (replicate (length (a # rs)) (map (\<lambda>t. (t, ev)) (in_room st x)))\<rparr>"
    by (simp add: emit_defs)
  finally show ?case .
qed

lemma getStrokes_emit [simp]:
  "getStrokes (io_to_emit x ev st) r = getStrokes st r"
  "getStrokes (socket_to_emit s x ev st) r = getStrokes st r"
  "getStrokes (socket_emit s ev st) r = getStrokes st r"
  by (simp_all add: getStrokes_def emit_defs cong: option.case_cong)

lemma taskBoards_get_emit [simp]:
  "taskBoards_get (io_to_emit x ev st) k = taskBoards_get st k"
  "taskBoards_get (socket_to_emit s x ev st) k = taskBoards_get st k"
  "taskBoards_get (socket_emit s ev st) k = taskBoards_get st k"
  "taskBoards_get (st\<lparr>delivered := d\<rparr>) k = taskBoards_get st k"
  by (simp_all add: taskBoards_get_def emit_defs cong: option.case_cong)

lemma store_reads_cong:
  "whiteboardData st' = whiteboardData st \<Longrightarrow> arrays st' = arrays st \<Longrightarrow>
   getStrokes st' r = getStrokes st r"
  "taskBoards st' = taskBoards st \<Longrightarrow> taskBoards_proto st' = taskBoards_proto st \<Longrightarrow>
   taskBoards_get st' k = taskBoards_get st k"
  by (simp_all add: getStrokes_def taskBoards_get_def split: option.splits)

lemma delivered_resume:
  "delivered (join_room_resume s r found st) =
     delivered st @
       map (\<lambda>t. (t, MessagesInitial (or_empty found))) (filter (\<lambda>t. t = s) (sockets st)) @
       map (\<lambda>t. (t, WhiteboardInitial (getStrokes st r))) (filter (\<lambda>t. t = s) (sockets st)) @
       map (\<lambda>t. (t, TasksUpdate (or_default (taskBoards_get st r))))
         (filter (\<lambda>t. t = s) (sockets st))"
  by (simp add: join_room_resume_def Let_def) (simp add: emit_defs)


section \<open>The properties\<close>

subsection \<open>Eviction of an emptied room\<close>

lemma rooms_client_other:
  assumes "\<And>r u. ev \<noteq> EvJoinRoom r u"
  shows "rooms (client_step s ev st) = rooms st"
  using same_tables_client [OF assms, of st s] by (simp add: same_tables_def)

lemma rooms_join_grows: "rooms st r \<noteq> None \<Longrightarrow> rooms (join_room s ra ua st) r \<noteq> None"
  by (simp add: join_room_def Let_def emit_defs)

lemma present_or_evicted_disconnect:
  "rooms st r \<noteq> None \<or> evicted st r \<Longrightarrow>
   rooms (disconnect_handler s r0 st) r \<noteq> None \<or> evicted (disconnect_handler s r0 st) r"
  by (auto simp: evicted_def rooms_disconnect wb_disconnect tb_disconnect split: option.splits)

lemma present_or_evicted_step:
  assumes "rooms st r \<noteq> None"
  shows "rooms (step e st) r \<noteq> None \<or> evicted (step e st) r"
proof (cases e)
  case (Connect s)
  then show ?thesis using assms by simp
next
  case (Client s ev)
  show ?thesis
  proof (cases "\<exists>ra ua. ev = EvJoinRoom ra ua")
    case True
    then obtain ra ua where "ev = EvJoinRoom ra ua" by blast
    then show ?thesis using rooms_join_grows [OF assms, of s ra ua] assms Client by simp
  next
    case False
    then have "rooms (client_step s ev st) = rooms st" by (intro rooms_client_other) simp
    then show ?thesis using assms Client by simp
  qed
next
  case (Disconnect s)
  have "rooms (dispatch (disconnect_handler s) (listeners st s)
          (st\<lparr>sockets := removeAll s (sockets st),
             adapter := (\<lambda>x. removeAll s (adapter st x))\<rparr>)) r \<noteq> None \<or>
        evicted (dispatch (disconnect_handler s) (listeners st s)
          (st\<lparr>sockets := removeAll s (sockets st),
             adapter := (\<lambda>x. removeAll s (adapter st x))\<rparr>)) r"
  proof (rule dispatch_induct)
    show "rooms (st\<lparr>sockets := removeAll s (sockets st),
             adapter := (\<lambda>x. removeAll s (adapter st x))\<rparr>) r \<noteq> None \<or>
          evicted (st\<lparr>sockets := removeAll s (sockets st),
             adapter := (\<lambda>x. removeAll s (adapter st x))\<rparr>) r"
      using assms by simp
  next
    fix r0 st'
    assume "rooms st' r \<noteq> None \<or> evicted st' r"
    then show "rooms (disconnect_handler s r0 st') r \<noteq> None \<or> evicted (disconnect_handler s r0 st') r"
      by (rule present_or_evicted_disconnect)
  qed
  then show ?thesis using assms Disconnect by auto
next
  case (FindDone s r' ok)
  then show ?thesis using assms by (simp add: resume_fields)
next
  case (CreateDone i ok)
  then show ?thesis using assms by (simp add: send_message_resume_def emit_defs)
next
  case (Tick n)
  then show ?thesis using assms by simp
qed

lemma join_then_resume_pushes:
  assumes "s \<in> set (sockets st)" "r \<noteq> []" "u \<noteq> []" "\<not> join_throws st r"
  shows "(s, WhiteboardInitial (getStrokes st r)) \<in>
           set (new_deliveries (step (Client s (EvJoinRoom (Some r) (Some u))) st)
                 (step (FindDone s r ok) (step (Client s (EvJoinRoom (Some r) (Some u))) st))) \<and>
         (s, TasksUpdate (or_default (taskBoards_get st r))) \<in>
           set (new_deliveries (step (Client s (EvJoinRoom (Some r) (Some u))) st)
                 (step (FindDone s r ok) (step (Client s (EvJoinRoom (Some r) (Some u))) st)))"
proof -
  define st1 where "st1 = step (Client s (EvJoinRoom (Some r) (Some u))) st"
  define st2 where "st2 = st1\<lparr>pending_finds := remove1 (s, r) (pending_finds st1)\<rparr>"
  have t: "truthy (Some r)" "truthy (Some u)" using assms by (simp_all add: truthy_def)
  have f: "sockets st1 = sockets st" "whiteboardData st1 = whiteboardData st"
    "arrays st1 = arrays st" "taskBoards st1 = taskBoards st"
    "taskBoards_proto st1 = taskBoards_proto st" "(s, r) \<in> set (pending_finds st1)"
    unfolding st1_def using assms(1) join_fields [OF t assms(4), of s] by simp_all
  have g: "getStrokes st2 r = getStrokes st r" "taskBoards_get st2 r = taskBoards_get st r"
    by (rule store_reads_cong; simp add: f st2_def)+
  have k: "sockets st2 = sockets st" "delivered st2 = delivered st1" by (simp_all add: f st2_def)
  have "step (FindDone s r ok) st1 =
          join_room_resume s r (if ok then Some (Message_find (Message_collection st1) r) else None) st2"
    using f(6) by (simp add: st2_def)
  then have "new_deliveries st1 (step (FindDone s r ok) st1) =
     map (\<lambda>t. (t, MessagesInitial (or_empty
            (if ok then Some (Message_find (Message_collection st1) r) else None))))
       (filter (\<lambda>t. t = s) (sockets st)) @
     map (\<lambda>t. (t, WhiteboardInitial (getStrokes st r))) (filter (\<lambda>t. t = s) (sockets st)) @
     map (\<lambda>t. (t, TasksUpdate (or_default (taskBoards_get st r))))
       (filter (\<lambda>t. t = s) (sockets st))"
    by (simp add: new_deliveries_def delivered_resume g k)
  then show ?thesis
    using assms(1) unfolding st1_def [symmetric] by (simp add: filter_empty_conv)
qed

lemma evicted_reads_default:
  assumes "evicted st' r" "r \<notin> set Object_prototype"
    "taskBoards_proto st' = None \<or> r \<notin> set [''todo'', ''inprogress'', ''done'']"
  shows "or_default (taskBoards_get st' r) = Board default_board"
proof -
  have o: "taskBoards st' r = None" using assms(1) by (simp add: evicted_def)
  show ?thesis
  proof (cases "taskBoards_proto st'")
    case None
    then show ?thesis using o assms(2) by (simp add: taskBoards_get_def or_default_def)
  next
    case (Some p)
    with assms(3) have "board_property p r = None" by (simp add: board_property_def)
    moreover have "r \<noteq> ''__proto__''" using assms(2) by (auto simp: Object_prototype_def)
    ultimately show ?thesis using o Some assms(2)
      by (simp add: taskBoards_get_def or_default_def)
  qed
qed




text \<open>
  The membership list can outlive its connections: the disconnect handler is
  registered only when a join resumes, so a socket that disconnects while its
  join is suspended at the store keeps its entry, and no later step removes it.
\<close>
lemma entry_of_a_socket_gone_during_join:
  "rooms (run [Connect ''s'', Client ''s'' (EvJoinRoom (Some ''r'') (Some ''sam'')),
               Disconnect ''s'', FindDone ''s'' ''r'' True] (init [])) ''r'' =
     Some [\<lparr>socketId = ''s'', username = ''sam''\<rparr>] \<and>
   sockets (run [Connect ''s'', Client ''s'' (EvJoinRoom (Some ''r'') (Some ''sam'')),
               Disconnect ''s'', FindDone ''s'' ''r'' True] (init [])) = []"
  by (simp add: handler_defs)

subsection \<open>Counting joins and leaves\<close>

lemma members_join_op:
  assumes "r \<noteq> []" "r \<notin> set Object_prototype"
  shows "members (join_room s (Some r) (Some u) st) r =
           (if u = [] then members st r
            else members st r @ [\<lparr>socketId = s, username = u\<rparr>])"
proof (cases "u = []")
  case True
  then show ?thesis by (simp add: join_room_def truthy_def)
next
  case False
  with assms have "truthy (Some r)" "truthy (Some u)" "\<not> join_throws st r"
    by (simp_all add: truthy_def join_throws_def)
  then show ?thesis using False by (simp add: members_join)
qed

lemma members_run_ops:
  assumes "r \<noteq> []" "r \<notin> set Object_prototype"
  shows "members (run_ops r xs st) r =
           filter (\<lambda>m. Leave (socketId m) \<notin> set xs) (members st r) @ joined_after xs"
proof (induction xs arbitrary: st)
  case Nil
  show ?case by simp
next
  case (Cons x xs)
  show ?case
  proof (cases x)
    case (Join s u)
    then show ?thesis
      by (simp add: Cons.IH members_join_op [OF assms] members_disconnect)
  next
    case (Leave s)
    have "filter (\<lambda>m. Leave (socketId m) \<notin> set xs) (filter (\<lambda>m. socketId m \<noteq> s) (members st r)) =
          filter (\<lambda>m. Leave (socketId m) \<notin> set (Leave s # xs)) (members st r)"
      by (auto intro: filter_cong)
    then show ?thesis using Leave
      by (simp add: Cons.IH members_join_op [OF assms] members_disconnect)
  qed
qed

lemma no_join_no_entry:
  "\<forall>u. Join s u \<notin> set xs \<Longrightarrow> s \<notin> socketId ` set (joined_after xs)"
proof (induction xs)
  case Nil
  show ?case by simp
next
  case (Cons x xs)
  then show ?case by (cases x) auto
qed

lemma length_filter_distinct:
  "distinct (map socketId l) \<Longrightarrow> s \<in> socketId ` set l \<Longrightarrow>
   Suc (length (filter (\<lambda>m. socketId m \<noteq> s) l)) = length l"
proof (induction l)
  case Nil
  then show ?case by simp
next
  case (Cons m ms)
  show ?case
  proof (cases "socketId m = s")
    case True
    with Cons.prems have "s \<notin> socketId ` set ms" by simp
    then have "filter (\<lambda>m. socketId m \<noteq> s) ms = ms" by (auto simp: filter_id_conv)
    with True show ?thesis by simp
  next
    case False
    with Cons show ?thesis by auto
  qed
qed

lemma length_alternating:
  assumes "r \<noteq> []" "r \<notin> set Object_prototype"
  shows "alternating J xs \<Longrightarrow> distinct (map socketId (members st r)) \<Longrightarrow>
         socketId ` set (members st r) = J \<Longrightarrow>
         length (members (run_ops r xs st) r) + leaves xs = length (members st r) + joins xs"
proof (induction xs arbitrary: st J)
  case Nil
  show ?case by simp
next
  case (Cons x xs)
  show ?case
  proof (cases x)
    case (Join s u)
    with Cons.prems have a: "s \<notin> J" "u \<noteq> []" "alternating (insert s J) xs" by simp_all
    let ?st = "room_op_step r x st"
    have m: "members ?st r = members st r @ [\<lparr>socketId = s, username = u\<rparr>]"
      using a Join by (simp add: members_join_op [OF assms] members_disconnect)
    have "distinct (map socketId (members ?st r))" "socketId ` set (members ?st r) = insert s J"
      using Cons.prems a by (auto simp: m)
    from Cons.IH [OF a(3) this]
    show ?thesis using Join a m by simp
  next
    case (Leave s)
    with Cons.prems have a: "s \<in> J" "alternating (J - {s}) xs" by simp_all
    let ?st = "room_op_step r x st"
    have m: "members ?st r = filter (\<lambda>m. socketId m \<noteq> s) (members st r)"
      using Leave by (simp add: members_join_op [OF assms] members_disconnect)
    have d: "distinct (map socketId (members ?st r))"
      using Cons.prems(2) by (simp add: m distinct_map_filter)
    have j: "socketId ` set (members ?st r) = J - {s}"
      using Cons.prems(3) by (auto simp: m)
    have "Suc (length (members ?st r)) = length (members st r)"
      unfolding m using Cons.prems a by (intro length_filter_distinct) simp_all
    with Cons.IH [OF a(2) d j]
    show ?thesis using Leave by simp
  qed
qed

lemma no_entry_disconnect_handler:
  "s \<notin> socketId ` set (members st r) \<Longrightarrow>
   s \<notin> socketId ` set (members (disconnect_handler s' r0 st) r)"
  by (auto simp: members_disconnect)

lemma listed_rooms_cleared:
  "r \<in> set rs \<Longrightarrow> s \<notin> socketId ` set (members (dispatch (disconnect_handler s) rs st) r)"
proof (induction rs arbitrary: st)
  case Nil
  then show ?case by simp
next
  case (Cons x xs)
  show ?case
  proof (cases "x = r")
    case True
    have "s \<notin> socketId ` set (members (dispatch (disconnect_handler s) xs (disconnect_handler s r st)) r)"
    proof (rule dispatch_induct)
      show "s \<notin> socketId ` set (members (disconnect_handler s r st) r)"
        by (auto simp: members_disconnect)
    next
      fix r0 and st' :: state
      assume "s \<notin> socketId ` set (members st' r)"
      then show "s \<notin> socketId ` set (members (disconnect_handler s r0 st') r)"
        by (rule no_entry_disconnect_handler)
    qed
    with True show ?thesis by simp
  next
    case False
    with Cons.prems have "r \<in> set xs" by simp
    from Cons.IH [OF this] show ?thesis by simp
  qed
qed

lemma disconnect_removes_entries:
  assumes "inv st" "s \<in> set (sockets st)" "\<forall>r'. (s, r') \<notin> set (pending_finds st)"
  shows "s \<notin> socketId ` set (members (step (Disconnect s) st) r)"
proof (cases "r \<in> set (listeners st s)")
  case True
  then show ?thesis using assms(2) by (simp add: listed_rooms_cleared)
next
  case False
  let ?st0 = "st\<lparr>sockets := removeAll s (sockets st),
                   adapter := (\<lambda>x. removeAll s (adapter st x))\<rparr>"
  from assms False have "s \<notin> socketId ` set (members st r)" unfolding inv_def by blast
  then have n: "s \<notin> socketId ` set (members ?st0 r)" by (simp add: members_def)
  have "s \<notin> socketId ` set (members (dispatch (disconnect_handler s) (listeners st s) ?st0) r)"
  proof (rule dispatch_induct)
    show "s \<notin> socketId ` set (members ?st0 r)" by (rule n)
  next
    fix r0 and st' :: state
    assume "s \<notin> socketId ` set (members st' r)"
    then show "s \<notin> socketId ` set (members (disconnect_handler s r0 st') r)"
      by (rule no_entry_disconnect_handler)
  qed
  then show ?thesis using assms(2) by simp
qed

lemma inherited_key_ops:
  assumes "k \<in> set Object_prototype"
  shows "rooms st k = None \<Longrightarrow>
         rooms (run_ops k xs st) k = None \<and>
         length (thrown (run_ops k xs st)) = length (thrown st) + joins xs"
proof (induction xs arbitrary: st)
  case Nil
  then show ?case by simp
next
  case (Cons x xs)
  from assms have k: "k \<noteq> []" by (auto simp: Object_prototype_def)
  show ?case
  proof (cases x)
    case (Join s u)
    show ?thesis
    proof (cases "u = []")
      case True
      then have "join_room s (Some k) (Some u) st = st" by (simp add: join_room_def truthy_def)
      then show ?thesis using Cons Join True by simp
    next
      case False
      with k have t: "truthy (Some k)" "truthy (Some u)" by (simp_all add: truthy_def)
      have j: "join_room s (Some k) (Some u) st =
                 (socket_join s k st)\<lparr>thrown := thrown st @ [TypeError]\<rparr>"
        using Cons.prems assms by (intro join_room_throws [OF t]) (simp add: join_throws_def)
      have "rooms ((socket_join s k st)\<lparr>thrown := thrown st @ [TypeError]\<rparr>) k = None"
        using Cons.prems by simp
      from Cons.IH [OF this] show ?thesis using Join False j by simp
    qed
  next
    case (Leave s)
    have "disconnect_handler s k st = st" using Cons.prems by (simp add: disconnect_handler_def)
    then show ?thesis using Cons Leave by simp
  qed
qed

text \<open>
  C2, as the code has it: after any sequence of joins and leaves on a room that
  starts without a membership list, and whose key is no property name of
  \<^verbatim>\<open>Object.prototype\<close>, the list holds, in join order, one entry
  for each join that no leave of the same connection follows; its length is
  joins minus leaves whenever every connection joins only while it is not in the
  room and leaves only while it is; and it holds no entry for a connection after
  that connection's leave, until that connection joins again. In a run of the
  event loop, the disconnect of a socket none of whose joins is suspended at
  the store leaves no entry of that socket in any membership list. Under a
  property name of \<^verbatim>\<open>Object.prototype\<close> no list is ever stored: each join that passes
  the guard throws a \<^verbatim>\<open>TypeError\<close>.
\<close>
theorem C2_membership_after_joins_and_leaves:
  assumes "r \<noteq> []" and "rooms st r = None" and "r \<notin> set Object_prototype"
  shows "members (run_ops r xs st) r = joined_after xs \<and>
         (alternating {} xs \<longrightarrow>
            length (members (run_ops r xs st) r) + leaves xs = joins xs) \<and>
         ((\<forall>u. Join s u \<notin> set zs) \<longrightarrow>
            s \<notin> socketId ` set (members (run_ops r (ys @ Leave s # zs) st') r)) \<and>
         (s \<in> set (sockets (run evs (init coll))) \<and>
          (\<forall>r'. (s, r') \<notin> set (pending_finds (run evs (init coll)))) \<longrightarrow>
            s \<notin> socketId ` set (members (step (Disconnect s) (run evs (init coll))) q)) \<and>
         (k \<in> set Object_prototype \<and> rooms sti k = None \<longrightarrow>
            members (run_ops k xs sti) k = [] \<and>
            length (thrown (run_ops k xs sti)) = length (thrown sti) + joins xs)"
proof -
  have e: "members st r = []" using assms(2) by (simp add: members_def or_empty_def)
  have 1: "members (run_ops r xs st) r = joined_after xs"
    by (simp add: members_run_ops [OF assms(1,3)] e)
  have 2: "alternating {} xs \<longrightarrow> length (members (run_ops r xs st) r) + leaves xs = joins xs"
    using length_alternating [OF assms(1,3), of "{}" xs st] e by simp
  have 3: "(\<forall>u. Join s u \<notin> set zs) \<longrightarrow>
            s \<notin> socketId ` set (members (run_ops r (ys @ Leave s # zs) st') r)"
  proof
    assume n: "\<forall>u. Join s u \<notin> set zs"
    have "joined_after (ys @ Leave s # zs) = joined_after (Leave s # zs)
            \<or> s \<notin> socketId ` set (joined_after (ys @ Leave s # zs))"
      (is "?A ys")
      using n
    proof (induction ys)
      case Nil
      show ?case by simp
    next
      case (Cons y ys)
      then show ?case using no_join_no_entry [OF n] by (cases y) auto
    qed
    then have "s \<notin> socketId ` set (joined_after (ys @ Leave s # zs))"
      using no_join_no_entry [OF n] by auto
    then show "s \<notin> socketId ` set (members (run_ops r (ys @ Leave s # zs) st') r)"
      by (auto simp: members_run_ops [OF assms(1,3)])
  qed
  have 4: "s \<in> set (sockets (run evs (init coll))) \<and>
          (\<forall>r'. (s, r') \<notin> set (pending_finds (run evs (init coll)))) \<longrightarrow>
            s \<notin> socketId ` set (members (step (Disconnect s) (run evs (init coll))) q)"
    using disconnect_removes_entries [OF inv_run [OF inv_init]] by blast
  have 5: "k \<in> set Object_prototype \<and> rooms sti k = None \<longrightarrow>
            members (run_ops k xs sti) k = [] \<and>
            length (thrown (run_ops k xs sti)) = length (thrown sti) + joins xs"
    using inherited_key_ops [of k sti xs] by (simp add: members_def or_empty_def)
  show ?thesis using 1 2 3 4 5 by blast
qed

theorem C2_witness:
  "''r'' \<noteq> [] \<and> rooms (init []) ''r'' = None \<and> ''r'' \<notin> set Object_prototype \<and>
   members (run_ops ''r'' [Join ''a'' ''ann'', Join ''b'' ''bob'', Leave ''a''] (init [])) ''r'' =
     [\<lparr>socketId = ''b'', username = ''bob''\<rparr>] \<and>
   alternating {} [Join ''a'' ''ann'', Join ''b'' ''bob'', Leave ''a''] \<and>
   length (members (run_ops ''r'' [Join ''a'' ''ann'', Join ''b'' ''bob'', Leave ''a''] (init [])) ''r'') + 1 = 2 \<and>
   ''a'' \<notin> socketId ` set (members (run_ops ''r'' ([Join ''a'' ''ann''] @ Leave ''a'' # [Join ''b'' ''bob'']) (init [])) ''r'') \<and>
   ''a'' \<in> set (sockets (run [Connect ''a'', Client ''a'' (EvJoinRoom (Some ''r'') (Some ''ann'')),
                                FindDone ''a'' ''r'' True] (init []))) \<and>
   pending_finds (run [Connect ''a'', Client ''a'' (EvJoinRoom (Some ''r'') (Some ''ann'')),
                       FindDone ''a'' ''r'' True] (init [])) = [] \<and>
   ''a'' \<in> socketId ` set (members (run [Connect ''a'', Client ''a'' (EvJoinRoom (Some ''r'') (Some ''ann'')),
                       FindDone ''a'' ''r'' True] (init [])) ''r'') \<and>
   ''a'' \<notin> socketId ` set (members (step (Disconnect ''a'')
      (run [Connect ''a'', Client ''a'' (EvJoinRoom (Some ''r'') (Some ''ann'')),
            FindDone ''a'' ''r'' True] (init []))) ''r'') \<and>
   ''constructor'' \<in> set Object_prototype \<and> rooms (init []) ''constructor'' = None \<and>
   members (run_ops ''constructor'' [Join ''a'' ''ann'', Join ''b'' ''bob'', Leave ''a''] (init []))
     ''constructor'' = [] \<and>
   thrown (run_ops ''constructor'' [Join ''a'' ''ann'', Join ''b'' ''bob'', Leave ''a''] (init [])) =
     [TypeError, TypeError]"
proof -
  define st0 where "st0 = run [Connect ''a'', Client ''a'' (EvJoinRoom (Some ''r'') (Some ''ann'')),
                       FindDone ''a'' ''r'' True] (init [])"
  have h: "''r'' \<noteq> []" "rooms (init []) ''r'' = None" "''r'' \<notin> set Object_prototype"
    by (simp_all add: init_def Object_prototype_def)
  have i: "''constructor'' \<in> set Object_prototype" "rooms (init []) ''constructor'' = None"
    "thrown (init []) = []"
    by (simp_all add: init_def Object_prototype_def)
  have n: "\<forall>u. Join ''a'' u \<notin> set [Join ''b'' ''bob'']" by simp
  have a: "''a'' \<in> set (sockets st0)" "pending_finds st0 = []"
    "''a'' \<in> socketId ` set (members st0 ''r'')"
    unfolding st0_def by (simp_all add: handler_defs members_def)
  then have p: "\<forall>r'. (''a'', r') \<notin> set (pending_finds st0)" by simp
  note T = C2_membership_after_joins_and_leaves [OF h,
      where xs = "[Join ''a'' ''ann'', Join ''b'' ''bob'', Leave ''a'']" and s = "''a''"
        and zs = "[Join ''b'' ''bob'']" and ys = "[Join ''a'' ''ann'']" and st' = "init []"
        and evs = "[Connect ''a'', Client ''a'' (EvJoinRoom (Some ''r'') (Some ''ann'')),
                       FindDone ''a'' ''r'' True]" and coll = "[]" and q = "''r''"
        and k = "''constructor''" and sti = "init []",
      folded st0_def]
  have al: "alternating {} [Join ''a'' ''ann'', Join ''b'' ''bob'', Leave ''a'']" by simp
  have j: "joined_after [Join ''a'' ''ann'', Join ''b'' ''bob'', Leave ''a''] =
      [\<lparr>socketId = ''b'', username = ''bob''\<rparr>]"
    "leaves [Join ''a'' ''ann'', Join ''b'' ''bob'', Leave ''a''] = 1"
    "joins [Join ''a'' ''ann'', Join ''b'' ''bob'', Leave ''a''] = 2"
    by simp_all
  from T al n a p have
    "members (run_ops ''r'' [Join ''a'' ''ann'', Join ''b'' ''bob'', Leave ''a''] (init [])) ''r'' =
       joined_after [Join ''a'' ''ann'', Join ''b'' ''bob'', Leave ''a'']"
    "length (members (run_ops ''r'' [Join ''a'' ''ann'', Join ''b'' ''bob'', Leave ''a''] (init [])) ''r'') +
       leaves [Join ''a'' ''ann'', Join ''b'' ''bob'', Leave ''a''] =
       joins [Join ''a'' ''ann'', Join ''b'' ''bob'', Leave ''a'']"
    "''a'' \<notin> socketId ` set (members (run_ops ''r'' ([Join ''a'' ''ann''] @ Leave ''a'' # [Join ''b'' ''bob'']) (init [])) ''r'')"
    "''a'' \<notin> socketId ` set (members (step (Disconnect ''a'') st0) ''r'')"
    by blast+
  note c = this [unfolded j]
  from T i(1,2) have
    "members (run_ops ''constructor'' [Join ''a'' ''ann'', Join ''b'' ''bob'', Leave ''a''] (init []))
       ''constructor'' = []"
    "length (thrown (run_ops ''constructor'' [Join ''a'' ''ann'', Join ''b'' ''bob'', Leave ''a'']
       (init []))) =
     length (thrown (init [])) + joins [Join ''a'' ''ann'', Join ''b'' ''bob'', Leave ''a'']"
    by blast+
  note d = this [unfolded j i(3)]
  have "thrown (run_ops ''constructor'' [Join ''a'' ''ann'', Join ''b'' ''bob'', Leave ''a''] (init [])) =
     [TypeError, TypeError]"
  proof -
    obtain x y where "thrown (run_ops ''constructor'' [Join ''a'' ''ann'', Join ''b'' ''bob'', Leave ''a'']
       (init [])) = [x, y]"
      using d(2) by (auto simp: length_Suc_conv numeral_2_eq_2)
    then show ?thesis by (cases x, cases y) simp
  qed
  then show ?thesis using h al a c i(1,2) d(1) unfolding st0_def by blast
qed

text \<open>
  A connection that joins twice and leaves once: two joins, one leave, and an
  empty list. The same in a run of the event loop, where one disconnect follows
  two completed joins of the socket.
\<close>
theorem C2_counterexample:
  "joins [Join ''s'' ''sam'', Join ''s'' ''sam'', Leave ''s''] = 2 \<and>
   leaves [Join ''s'' ''sam'', Join ''s'' ''sam'', Leave ''s''] = 1 \<and>
   length (members (run_ops ''r'' [Join ''s'' ''sam'', Join ''s'' ''sam'', Leave ''s''] (init [])) ''r'') = 0 \<and>
   members (run [Connect ''s'',
                 Client ''s'' (EvJoinRoom (Some ''r'') (Some ''sam'')), FindDone ''s'' ''r'' True,
                 Client ''s'' (EvJoinRoom (Some ''r'') (Some ''sam'')), FindDone ''s'' ''r'' True]
              (init [])) ''r'' =
     [\<lparr>socketId = ''s'', username = ''sam''\<rparr>, \<lparr>socketId = ''s'', username = ''sam''\<rparr>] \<and>
   members (run [Connect ''s'',
                 Client ''s'' (EvJoinRoom (Some ''r'') (Some ''sam'')), FindDone ''s'' ''r'' True,
                 Client ''s'' (EvJoinRoom (Some ''r'') (Some ''sam'')), FindDone ''s'' ''r'' True,
                 Disconnect ''s'']
              (init [])) ''r'' = []"
  by (simp add: handler_defs members_def)

subsection \<open>Leaving a room\<close>

lemma filter_single:
  "length (filter (\<lambda>u. socketId u = s) l) \<le> 1 \<Longrightarrow>
   filter (\<lambda>u. socketId u \<noteq> s) l = remove_first_entry s l"
proof (induction l)
  case Nil
  then show ?case by simp
next
  case (Cons m ms)
  show ?case
  proof (cases "socketId m = s")
    case True
    with Cons.prems have "filter (\<lambda>u. socketId u = s) ms = []" by simp
    then have "filter (\<lambda>u. socketId u \<noteq> s) ms = ms"
      by (simp add: filter_empty_conv filter_id_conv)
    with True show ?thesis by simp
  next
    case False
    with Cons show ?thesis by simp
  qed
qed

text \<open>
  C3, as the code has it: run on a room with a membership list, the disconnect
  handler of a connection removes every entry of that connection and keeps the
  others in order; the room is evicted from the three stores exactly when the
  filtered list is empty, and otherwise the filtered list is stored and stroke
  log and task board are untouched. When the connection has at most one entry
  this is the removal of its first entry.
\<close>
theorem C3_leave_removes_every_entry:
  assumes "rooms st r = Some l"
  shows "members (disconnect_handler s r st) r = filter (\<lambda>u. socketId u \<noteq> s) l \<and>
         (evicted (disconnect_handler s r st) r \<longleftrightarrow> filter (\<lambda>u. socketId u \<noteq> s) l = []) \<and>
         (filter (\<lambda>u. socketId u \<noteq> s) l \<noteq> [] \<longrightarrow>
            rooms (disconnect_handler s r st) r = Some (filter (\<lambda>u. socketId u \<noteq> s) l) \<and>
            whiteboardData (disconnect_handler s r st) = whiteboardData st \<and>
            taskBoards (disconnect_handler s r st) = taskBoards st) \<and>
         (length (filter (\<lambda>u. socketId u = s) l) \<le> 1 \<longrightarrow>
            members (disconnect_handler s r st) r = remove_first_entry s l)"
proof -
  have m: "members st r = l" using assms by (simp add: members_def or_empty_def)
  have 1: "members (disconnect_handler s r st) r = filter (\<lambda>u. socketId u \<noteq> s) l"
    by (simp add: members_disconnect m)
  have 2: "evicted (disconnect_handler s r st) r \<longleftrightarrow> filter (\<lambda>u. socketId u \<noteq> s) l = []"
    using assms by (simp add: evicted_def rooms_disconnect wb_disconnect tb_disconnect)
  have 3: "filter (\<lambda>u. socketId u \<noteq> s) l \<noteq> [] \<longrightarrow>
            rooms (disconnect_handler s r st) r = Some (filter (\<lambda>u. socketId u \<noteq> s) l) \<and>
            whiteboardData (disconnect_handler s r st) = whiteboardData st \<and>
            taskBoards (disconnect_handler s r st) = taskBoards st"
    using assms by (simp add: rooms_disconnect wb_disconnect tb_disconnect)
  show ?thesis using 1 2 3 filter_single [of s l] by simp
qed

theorem C3_witness:
  "rooms (run two_joins (init [])) ''r'' =
     Some [\<lparr>socketId = ''t'', username = ''tom''\<rparr>, \<lparr>socketId = ''s'', username = ''sam''\<rparr>,
           \<lparr>socketId = ''s'', username = ''sam''\<rparr>] \<and>
   members (disconnect_handler ''t'' ''r'' (run two_joins (init []))) ''r'' =
     [\<lparr>socketId = ''s'', username = ''sam''\<rparr>, \<lparr>socketId = ''s'', username = ''sam''\<rparr>] \<and>
   \<not> evicted (disconnect_handler ''t'' ''r'' (run two_joins (init []))) ''r'' \<and>
   members (disconnect_handler ''t'' ''r'' (run two_joins (init []))) ''r'' =
     remove_first_entry ''t'' [\<lparr>socketId = ''t'', username = ''tom''\<rparr>, \<lparr>socketId = ''s'', username = ''sam''\<rparr>,
           \<lparr>socketId = ''s'', username = ''sam''\<rparr>]"
proof -
  have r: "rooms (run two_joins (init [])) ''r'' =
     Some [\<lparr>socketId = ''t'', username = ''tom''\<rparr>, \<lparr>socketId = ''s'', username = ''sam''\<rparr>,
           \<lparr>socketId = ''s'', username = ''sam''\<rparr>]"
    by (simp add: two_joins_def handler_defs)
  show ?thesis
    using C3_leave_removes_every_entry [OF r, of "''t''"] r by simp
qed

text \<open>
  With \<open>s\<close> entered twice, the first run of its disconnect handler leaves
  no entry of \<open>s\<close>, where the removal of the first entry would keep one; the
  remaining member is sent the same list by both runs.
\<close>
theorem C3_counterexample:
  "members (run two_joins (init [])) ''r'' =
     [\<lparr>socketId = ''t'', username = ''tom''\<rparr>, \<lparr>socketId = ''s'', username = ''sam''\<rparr>,
      \<lparr>socketId = ''s'', username = ''sam''\<rparr>] \<and>
   members (disconnect_handler ''s'' ''r'' (run two_joins (init []))) ''r'' =
     [\<lparr>socketId = ''t'', username = ''tom''\<rparr>] \<and>
   remove_first_entry ''s'' (members (run two_joins (init [])) ''r'') =
     [\<lparr>socketId = ''t'', username = ''tom''\<rparr>, \<lparr>socketId = ''s'', username = ''sam''\<rparr>] \<and>
   new_deliveries (run two_joins (init [])) (step (Disconnect ''s'') (run two_joins (init []))) =
     [(''t'', UsersUpdate [\<lparr>socketId = ''t'', username = ''tom''\<rparr>]), (''t'', UserLeft ''s''),
      (''t'', UsersUpdate [\<lparr>socketId = ''t'', username = ''tom''\<rparr>]), (''t'', UserLeft ''s'')]"
  by (simp add: two_joins_def handler_defs members_def new_deliveries_def)


subsection \<open>The history pushed on a join\<close>

lemma room_messages_history:
  "sort_key createdAt (filter (\<lambda>m. roomId m = ''r'') (history n)) = history n"
proof -
  have "filter (\<lambda>m. roomId m = ''r'') (history n) = history n"
    by (simp add: history_def filter_map o_def)
  moreover have "sort_key createdAt (history n) = history n"
    by (rule sort_key_id_if_sorted) (simp add: history_def o_def)
  ultimately show ?thesis by simp
qed

lemma length_history [simp]: "length (history n) = n"
  by (simp add: history_def)

lemma take_history: "k \<le> n \<Longrightarrow> take k (history n) = history k"
  by (simp add: history_def take_map min_def)

text \<open>
  C4, at a room with 201 stored messages: the query returns the 200 oldest, so
  the joining socket is pushed the messages created at the times 0 to 199 and
  not the newest one, created at time 200, which the most recent 200 contain.
  A failed query pushes the empty history and the join completes all the same.
\<close>
theorem C4_oldest_messages_pushed:
  "Message_find (history 201) ''r'' = history 200 \<and>
   \<lparr>roomId = ''r'', sender = ''ann'', text_field = ''hi'', createdAt = 200\<rparr> \<notin>
      set (Message_find (history 201) ''r'') \<and>
   \<lparr>roomId = ''r'', sender = ''ann'', text_field = ''hi'', createdAt = 200\<rparr> \<in>
      set (most_recent (history 201) ''r'') \<and>
   new_deliveries
     (run [Connect ''s'', Client ''s'' (EvJoinRoom (Some ''r'') (Some ''sam''))] (init (history 201)))
     (run [Connect ''s'', Client ''s'' (EvJoinRoom (Some ''r'') (Some ''sam'')),
           FindDone ''s'' ''r'' True] (init (history 201))) =
     [(''s'', MessagesInitial (history 200)), (''s'', WhiteboardInitial []),
      (''s'', TasksUpdate (Board default_board))] \<and>
   new_deliveries
     (run [Connect ''s'', Client ''s'' (EvJoinRoom (Some ''r'') (Some ''sam''))] (init (history 201)))
     (run [Connect ''s'', Client ''s'' (EvJoinRoom (Some ''r'') (Some ''sam'')),
           FindDone ''s'' ''r'' False] (init (history 201))) =
     [(''s'', MessagesInitial []), (''s'', WhiteboardInitial []),
      (''s'', TasksUpdate (Board default_board))] \<and>
   listeners
     (run [Connect ''s'', Client ''s'' (EvJoinRoom (Some ''r'') (Some ''sam'')),
           FindDone ''s'' ''r'' False] (init (history 201))) ''s'' = [''r'']"
proof -
  have f: "Message_find (history 201) ''r'' = history 200"
    by (simp add: Message_find_def room_messages_history take_history)
  have n: "\<lparr>roomId = ''r'', sender = ''ann'', text_field = ''hi'', createdAt = 200\<rparr> \<notin>
      set (history 200)"
    by (auto simp: history_def)
  have "most_recent (history 201) ''r'' = drop 1 (history 201)"
    by (simp add: most_recent_def room_messages_history Let_def)
  then have m: "\<lparr>roomId = ''r'', sender = ''ann'', text_field = ''hi'', createdAt = 200\<rparr> \<in>
      set (most_recent (history 201) ''r'')"
    by (simp add: history_def drop_map)
  have d: "new_deliveries
     (run [Connect ''s'', Client ''s'' (EvJoinRoom (Some ''r'') (Some ''sam''))] (init (history 201)))
     (run [Connect ''s'', Client ''s'' (EvJoinRoom (Some ''r'') (Some ''sam'')),
           FindDone ''s'' ''r'' True] (init (history 201))) =
     [(''s'', MessagesInitial (Message_find (history 201) ''r'')), (''s'', WhiteboardInitial []),
      (''s'', TasksUpdate (Board default_board))]"
    by (simp add: new_deliveries_def join_room_def join_room_resume_def emit_defs in_room_def
        truthy_def or_empty_def or_default_def key_of_def init_def Let_def
        socket_join_def getStrokes_def taskBoards_get_def Object_prototype_def)
  have e: "new_deliveries
     (run [Connect ''s'', Client ''s'' (EvJoinRoom (Some ''r'') (Some ''sam''))] (init (history 201)))
     (run [Connect ''s'', Client ''s'' (EvJoinRoom (Some ''r'') (Some ''sam'')),
           FindDone ''s'' ''r'' False] (init (history 201))) =
     [(''s'', MessagesInitial []), (''s'', WhiteboardInitial []),
      (''s'', TasksUpdate (Board default_board))]"
    "listeners
     (run [Connect ''s'', Client ''s'' (EvJoinRoom (Some ''r'') (Some ''sam'')),
           FindDone ''s'' ''r'' False] (init (history 201))) ''s'' = [''r'']"
    by (simp_all add: new_deliveries_def join_room_def join_room_resume_def emit_defs in_room_def
        truthy_def or_empty_def or_default_def key_of_def init_def Let_def
        socket_join_def getStrokes_def taskBoards_get_def Object_prototype_def)
  show ?thesis using f n m d e by simp
qed

subsection \<open>Who a broadcast reaches\<close>

lemma dispatch_emits:
  assumes "\<And>r st. delivered (h r st) = delivered st @ map (\<lambda>t. (t, ev)) (R st r)"
    and "\<And>r st y. R (h r st) y = R st y"
  shows "delivered (dispatch h rs st) =
           delivered st @ concat (map (\<lambda>r. map (\<lambda>t. (t, ev)) (R st r)) rs)"
proof (induction rs arbitrary: st)
  case Nil
  show ?case by simp
next
  case (Cons x xs)
  have "delivered (dispatch h (x # xs) st) =
          delivered (h x st) @ concat (map (\<lambda>r. map (\<lambda>t. (t, ev)) (R (h x st) r)) xs)"
    using Cons.IH [of "h x st"] by simp
  then show ?case by (simp add: assms)
qed

lemma delivered_whiteboard:
  "delivered (whiteboard_draw s k r st) =
     delivered st @ map (\<lambda>t. (t, WhiteboardDraw k)) (filter (\<lambda>t. t \<noteq> s) (in_room st r))"
  "delivered (whiteboard_undo s p r st) =
     delivered st @ map (\<lambda>t. (t, WhiteboardUndo (map_option (arrays st) p)))
       (filter (\<lambda>t. t \<noteq> s) (in_room st r))"
  "delivered (whiteboard_redo s p r st) =
     delivered st @ map (\<lambda>t. (t, WhiteboardRedo (map_option (arrays st) p)))
       (filter (\<lambda>t. t \<noteq> s) (in_room st r))"
  "delivered (whiteboard_clear s r st) =
     delivered st @ map (\<lambda>t. (t, WhiteboardClear)) (in_room st r)"
  by (simp_all add: in_room_def whiteboard_draw_def whiteboard_undo_def whiteboard_redo_def
      whiteboard_clear_def emit_defs new_array_def array_push_def split: option.splits)

lemma delivered_receive [simp]: "delivered (snd (receive_array ks st)) = delivered st"
  by (simp add: receive_array_def new_array_def split: option.splits)

lemma exclusive_dispatch:
  assumes "\<And>r st. \<exists>xs. delivered (h r st) = delivered st @ xs \<and> s \<notin> fst ` set xs"
    and "delivered st1 = delivered st"
  shows "s \<notin> fst ` set (new_deliveries st (dispatch h rs st1))"
proof -
  have "\<exists>xs. delivered (dispatch h rs st1) = delivered st @ xs \<and> s \<notin> fst ` set xs"
  proof (rule dispatch_induct)
    show "\<exists>xs. delivered st1 = delivered st @ xs \<and> s \<notin> fst ` set xs"
      using assms(2) by simp
  next
    fix r and st' :: state
    assume "\<exists>xs. delivered st' = delivered st @ xs \<and> s \<notin> fst ` set xs"
    then obtain xs where xs: "delivered st' = delivered st @ xs" "s \<notin> fst ` set xs" by blast
    from assms(1) [of r st'] obtain ys where
      ys: "delivered (h r st') = delivered st' @ ys" "s \<notin> fst ` set ys" by blast
    from xs ys have "delivered (h r st') = delivered st @ (xs @ ys)" "s \<notin> fst ` set (xs @ ys)"
      by auto
    then show "\<exists>xs. delivered (h r st') = delivered st @ xs \<and> s \<notin> fst ` set xs" by blast
  qed
  then show ?thesis by (auto simp: new_deliveries_def)
qed

lemma exclusive_whiteboard:
  "\<exists>xs. delivered (whiteboard_draw s k r st) = delivered st @ xs \<and> s \<notin> fst ` set xs"
  "\<exists>xs. delivered (whiteboard_undo s p r st) = delivered st @ xs \<and> s \<notin> fst ` set xs"
  "\<exists>xs. delivered (whiteboard_redo s p r st) = delivered st @ xs \<and> s \<notin> fst ` set xs"
  by (auto simp: delivered_whiteboard)

lemma inclusive_dispatch:
  assumes "\<And>r st. delivered (h r st) = delivered st @ map (\<lambda>t. (t, ev)) (in_room st r)"
    and "\<And>r st y. in_room (h r st) y = in_room st y"
    and "r \<in> set rs" "t \<in> set (in_room st r)"
  shows "(t, ev) \<in> set (new_deliveries st (dispatch h rs st))"
proof -
  have "delivered (dispatch h rs st) =
          delivered st @ concat (map (\<lambda>r. map (\<lambda>t. (t, ev)) (in_room st r)) rs)"
    by (rule dispatch_emits [where R = in_room]) (simp_all add: assms)
  then show ?thesis using assms(3,4) by (auto simp: new_deliveries_def)
qed

lemma delivered_join:
  assumes "r \<noteq> []" "u \<noteq> []" "\<not> join_throws st r"
  shows "delivered (join_room s (Some r) (Some u) st) =
     delivered st @
       map (\<lambda>t. (t, UsersUpdate (members st r @ [\<lparr>socketId = s, username = u\<rparr>])))
         (in_room (socket_join s r st) r) @
       map (\<lambda>t. (t, UserJoined \<lparr>socketId = s, username = u\<rparr>))
         (filter (\<lambda>t. t \<noteq> s) (in_room (socket_join s r st) r))"
  using assms
  by (auto simp: join_room_def Let_def emit_defs in_room_def truthy_def key_of_def members_def
      or_empty_def join_throws_def simp del: filter_filter)

lemma join_not_to_joiner:
  "(s, UserJoined m) \<notin> set (new_deliveries st (join_room s ra ua st))"
proof (cases "truthy ra \<and> truthy ua")
  case False
  then show ?thesis by (auto simp: join_room_def new_deliveries_def)
next
  case True
  then obtain r u where ru: "ra = Some r" "ua = Some u" "r \<noteq> []" "u \<noteq> []"
    by (auto simp: truthy_def split: option.splits)
  show ?thesis
  proof (cases "join_throws st r")
    case True
    then show ?thesis using ru
      by (simp add: join_room_throws truthy_def new_deliveries_def)
  next
    case False
    then show ?thesis using ru by (auto simp: new_deliveries_def delivered_join)
  qed
qed

lemma join_presence:
  assumes "r \<noteq> []" "u \<noteq> []" "\<not> join_throws st r" "t \<in> set (sockets st)"
    "t = s \<or> t \<in> set (adapter st r)"
  shows "(t, UsersUpdate (members st r @ [\<lparr>socketId = s, username = u\<rparr>])) \<in>
           set (new_deliveries st (join_room s (Some r) (Some u) st))"
  using assms(4,5) by (auto simp: new_deliveries_def delivered_join [OF assms(1,2,3)] in_room_def)

lemma delivered_disconnect_handler:
  "delivered (disconnect_handler s r st) =
     delivered st @
       (case rooms st r of
          None \<Rightarrow> []
        | Some l \<Rightarrow>
            map (\<lambda>t. (t, UsersUpdate (filter (\<lambda>u. socketId u \<noteq> s) l))) (in_room st r) @
            map (\<lambda>t. (t, UserLeft s)) (filter (\<lambda>t. t \<noteq> s) (in_room st r)))"
  by (simp add: disconnect_handler_def Let_def emit_defs in_room_def split: option.splits)

lemma disconnect_spares_leaver:
  assumes "s \<notin> set (sockets st)"
  shows "\<exists>xs. delivered (dispatch (disconnect_handler s) rs st) = delivered st @ xs \<and>
              s \<notin> fst ` set xs"
  using assms
proof (induction rs arbitrary: st)
  case Nil
  show ?case by simp
next
  case (Cons x xs)
  let ?st1 = "disconnect_handler s x st"
  have n: "s \<notin> set (sockets ?st1)" using Cons.prems by (simp add: disconnect_fields)
  have i: "s \<notin> set (in_room st y)" for y using Cons.prems by (simp add: in_room_def)
  define ys where "ys = (case rooms st x of
          None \<Rightarrow> []
        | Some l \<Rightarrow>
            map (\<lambda>t. (t, UsersUpdate (filter (\<lambda>u. socketId u \<noteq> s) l))) (in_room st x) @
            map (\<lambda>t. (t, UserLeft s)) (filter (\<lambda>t. t \<noteq> s) (in_room st x)))"
  have ys: "delivered ?st1 = delivered st @ ys"
    by (simp add: delivered_disconnect_handler ys_def)
  have ys': "s \<notin> fst ` set ys"
    using i [of x] by (cases "rooms st x") (auto simp: ys_def)
  from Cons.IH [OF n] obtain zs where
    "delivered (dispatch (disconnect_handler s) xs ?st1) = delivered ?st1 @ zs" "s \<notin> fst ` set zs"
    by blast
  with ys ys' have "delivered (dispatch (disconnect_handler s) (x # xs) st) = delivered st @ (ys @ zs)"
    "s \<notin> fst ` set (ys @ zs)"
    by auto
  then show ?case by blast
qed

lemma disconnect_reaches_remaining:
  assumes "r \<in> set rs" "t \<in> set (in_room st r)" "t \<noteq> s" "t \<in> socketId ` set (members st r)"
  shows "(t, UsersUpdate (filter (\<lambda>u. socketId u \<noteq> s) (members st r))) \<in>
           set (new_deliveries st (dispatch (disconnect_handler s) rs st)) \<and>
         (t, UserLeft s) \<in> set (new_deliveries st (dispatch (disconnect_handler s) rs st))"
  using assms
proof (induction rs arbitrary: st)
  case Nil
  then show ?case by simp
next
  case (Cons x xs)
  let ?st1 = "disconnect_handler s x st"
  let ?U = "UsersUpdate (filter (\<lambda>u. socketId u \<noteq> s) (members st r))"
  obtain ys where ys: "delivered ?st1 = delivered st @ ys"
    by (simp add: delivered_disconnect_handler)
  obtain zs where zs: "delivered (dispatch (disconnect_handler s) xs ?st1) = delivered ?st1 @ zs"
  proof -
    have "\<exists>zs. delivered (dispatch (disconnect_handler s) xs ?st1) = delivered ?st1 @ zs"
    proof (rule dispatch_induct [where P = "\<lambda>st'. \<exists>zs. delivered st' = delivered ?st1 @ zs"])
      show "\<exists>zs. delivered ?st1 = delivered ?st1 @ zs" by simp
    next
      fix r0 and st' :: state
      assume "\<exists>zs. delivered st' = delivered ?st1 @ zs"
      then show "\<exists>zs. delivered (disconnect_handler s r0 st') = delivered ?st1 @ zs"
        by (auto simp: delivered_disconnect_handler)
    qed
    then show ?thesis using that by blast
  qed
  have n: "new_deliveries st (dispatch (disconnect_handler s) (x # xs) st) = ys @ zs"
    by (simp add: new_deliveries_def ys zs)
  show ?case
  proof (cases "x = r")
    case True
    from Cons.prems(4) obtain l where l: "rooms st r = Some l" "members st r = l"
      by (cases "rooms st r") (auto simp: members_def or_empty_def)
    have "(t, ?U) \<in> set ys \<and> (t, UserLeft s) \<in> set ys"
      using ys Cons.prems(2,3) l True by (auto simp: delivered_disconnect_handler)
    then show ?thesis unfolding n by simp
  next
    case False
    with Cons.prems have a: "r \<in> set xs" "t \<in> set (in_room ?st1 r)"
      "t \<in> socketId ` set (members ?st1 r)" "members ?st1 r = members st r"
      by (simp_all add: members_disconnect)
    from Cons.IH [OF a(1,2) Cons.prems(3) a(3)]
    have "(t, ?U) \<in> set zs \<and> (t, UserLeft s) \<in> set zs"
      by (simp add: new_deliveries_def zs a(4))
    then show ?thesis unfolding n by simp
  qed
qed

lemma in_replicated:
  "0 < n \<Longrightarrow> x \<in> set xs \<Longrightarrow> x \<in> set (concat (replicate n xs))"
  by (cases n) simp_all



subsection \<open>Undo, redo and clear\<close>

lemma dispatch_append: "dispatch h (xs @ ys) st = dispatch h ys (dispatch h xs st)"
  by (induction xs arbitrary: st) simp_all

text \<open>
  What a whiteboard event leaves in a room the socket holds a closure for, when every
  closure stores the value \<open>v\<close> in its own room and keeps it in the others.
\<close>
lemma getStrokes_dispatch:
  assumes i: "I st"
    and h: "\<And>x st. I st \<Longrightarrow>
              I (h x st) \<and> getStrokes (h x st) x = v \<and>
              (getStrokes st r = v \<longrightarrow> getStrokes (h x st) r = v)"
    and r: "r \<in> set rs"
  shows "getStrokes (dispatch h rs st) r = v"
proof -
  from r obtain ys zs where rs: "rs = ys @ r # zs" by (meson split_list)
  have "I (dispatch h ys st)"
    by (rule dispatch_induct) (simp_all add: i h)
  then have a: "I (h r (dispatch h ys st)) \<and> getStrokes (h r (dispatch h ys st)) r = v"
    using h by blast
  have "I (dispatch h zs (h r (dispatch h ys st))) \<and>
        getStrokes (dispatch h zs (h r (dispatch h ys st))) r = v"
    by (rule dispatch_induct) (use a h in blast)+
  then show ?thesis unfolding rs dispatch_append by simp
qed

lemma undo_stores:
  "arrays st a = l \<Longrightarrow>
   arrays (whiteboard_undo s (Some a) x st) a = l \<and>
   getStrokes (whiteboard_undo s (Some a) x st) x = l \<and>
   (getStrokes st r = l \<longrightarrow> getStrokes (whiteboard_undo s (Some a) x st) r = l)"
  "getStrokes (whiteboard_undo s None x st) x = [] \<and>
   (getStrokes st r = [] \<longrightarrow> getStrokes (whiteboard_undo s None x st) r = [])"
  by (auto simp: whiteboard_undo_def emit_defs getStrokes_def new_array_def split: option.splits)

lemma redo_stores:
  "arrays st a = l \<Longrightarrow>
   arrays (whiteboard_redo s (Some a) x st) a = l \<and>
   getStrokes (whiteboard_redo s (Some a) x st) x = l \<and>
   (getStrokes st r = l \<longrightarrow> getStrokes (whiteboard_redo s (Some a) x st) r = l)"
  "getStrokes (whiteboard_redo s None x st) x = [] \<and>
   (getStrokes st r = [] \<longrightarrow> getStrokes (whiteboard_redo s None x st) r = [])"
  by (auto simp: whiteboard_redo_def emit_defs getStrokes_def new_array_def split: option.splits)

lemma clear_stores:
  "getStrokes (whiteboard_clear s x st) x = [] \<and>
   (getStrokes st r = [] \<longrightarrow> getStrokes (whiteboard_clear s x st) r = [])"
  by (auto simp: whiteboard_clear_def emit_defs getStrokes_def new_array_def split: option.splits)

lemma getStrokes_undo:
  assumes "r \<in> set (listeners st s)"
  shows "getStrokes (dispatch (whiteboard_undo s (fst (receive_array ks st))) (listeners st s)
           (snd (receive_array ks st))) r = or_empty ks"
proof (cases ks)
  case None
  have "getStrokes (dispatch (whiteboard_undo s None) (listeners st s) st) r = []"
    by (rule getStrokes_dispatch [where I = "\<lambda>_. True"]) (simp_all add: undo_stores assms)
  then show ?thesis by (simp add: None receive_array_def or_empty_def)
next
  case (Some l)
  have "getStrokes (dispatch (whiteboard_undo s (Some (next_array st))) (listeners st s)
          (new_array l st)) r = l"
    by (rule getStrokes_dispatch [where I = "\<lambda>st'. arrays st' (next_array st) = l"])
       (simp_all add: undo_stores assms new_array_def)
  then show ?thesis by (simp add: Some receive_array_def or_empty_def)
qed

lemma getStrokes_redo:
  assumes "r \<in> set (listeners st s)"
  shows "getStrokes (dispatch (whiteboard_redo s (fst (receive_array ks st))) (listeners st s)
           (snd (receive_array ks st))) r = or_empty ks"
proof (cases ks)
  case None
  have "getStrokes (dispatch (whiteboard_redo s None) (listeners st s) st) r = []"
    by (rule getStrokes_dispatch [where I = "\<lambda>_. True"]) (simp_all add: redo_stores assms)
  then show ?thesis by (simp add: None receive_array_def or_empty_def)
next
  case (Some l)
  have "getStrokes (dispatch (whiteboard_redo s (Some (next_array st))) (listeners st s)
          (new_array l st)) r = l"
    by (rule getStrokes_dispatch [where I = "\<lambda>st'. arrays st' (next_array st) = l"])
       (simp_all add: redo_stores assms new_array_def)
  then show ?thesis by (simp add: Some receive_array_def or_empty_def)
qed

lemma getStrokes_clear:
  assumes "r \<in> set (listeners st s)"
  shows "getStrokes (dispatch (whiteboard_clear s) (listeners st s) st) r = []"
  by (rule getStrokes_dispatch [where I = "\<lambda>_. True"]) (simp_all add: clear_stores assms)

lemma undo_redo_agree:
  "whiteboardData st = whiteboardData st' \<and> arrays st = arrays st' \<and>
   next_array st = next_array st' \<Longrightarrow>
   whiteboardData (whiteboard_undo s p r st) = whiteboardData (whiteboard_redo s p r st') \<and>
   arrays (whiteboard_undo s p r st) = arrays (whiteboard_redo s p r st') \<and>
   next_array (whiteboard_undo s p r st) = next_array (whiteboard_redo s p r st')"
  by (simp add: whiteboard_undo_def whiteboard_redo_def emit_defs new_array_def
      split: option.splits)

lemma dispatch_undo_redo:
  "whiteboardData st = whiteboardData st' \<and> arrays st = arrays st' \<and>
   next_array st = next_array st' \<Longrightarrow>
   whiteboardData (dispatch (whiteboard_undo s p) rs st) =
     whiteboardData (dispatch (whiteboard_redo s p) rs st') \<and>
   arrays (dispatch (whiteboard_undo s p) rs st) =
     arrays (dispatch (whiteboard_redo s p) rs st') \<and>
   next_array (dispatch (whiteboard_undo s p) rs st) =
     next_array (dispatch (whiteboard_redo s p) rs st')"
proof (induction rs arbitrary: st st')
  case Nil
  then show ?case by simp
next
  case (Cons x xs)
  from Cons.IH [OF undo_redo_agree [OF Cons.prems]] show ?case by simp
qed

lemma getStrokes_disconnect_handler:
  "getStrokes st r = [] \<Longrightarrow> getStrokes (disconnect_handler s r0 st) r = []"
  by (auto simp: getStrokes_def wb_disconnect disconnect_fields split: option.splits)

lemma getStrokes_quiet_step:
  assumes "getStrokes st r = []" "\<not> strokes_arrive e"
  shows "getStrokes (step e st) r = []"
proof (cases e)
  case (Connect s)
  then show ?thesis using assms by (simp add: getStrokes_def split: option.splits)
next
  case (Client s ev)
  show ?thesis
  proof (cases ev)
    case (EvJoinRoom ra ua)
    then show ?thesis using assms Client
      by (simp add: getStrokes_def join_keeps split: option.splits)
  next
    case EvWhiteboardClear
    have "getStrokes (dispatch (whiteboard_clear s) (listeners st s) st) r = []"
      by (rule dispatch_induct) (simp_all add: assms clear_stores)
    then show ?thesis using assms Client EvWhiteboardClear by simp
  qed (use assms Client in \<open>simp_all add: getStrokes_def dispatch_field split: option.splits\<close>)
next
  case (Disconnect s)
  have "getStrokes (dispatch (disconnect_handler s) (listeners st s)
          (st\<lparr>sockets := removeAll s (sockets st),
             adapter := (\<lambda>x. removeAll s (adapter st x))\<rparr>)) r = []"
  proof (rule dispatch_induct)
    show "getStrokes (st\<lparr>sockets := removeAll s (sockets st),
             adapter := (\<lambda>x. removeAll s (adapter st x))\<rparr>) r = []"
      using assms by (simp add: getStrokes_def split: option.splits)
  next
    fix r0 st'
    assume "getStrokes st' r = []"
    then show "getStrokes (disconnect_handler s r0 st') r = []"
      by (rule getStrokes_disconnect_handler)
  qed
  then show ?thesis using assms Disconnect by simp
next
  case (FindDone s r' ok)
  then show ?thesis using assms by (simp add: getStrokes_def resume_fields split: option.splits)
next
  case (CreateDone i ok)
  then show ?thesis using assms by (simp add: getStrokes_def split: option.splits)
next
  case (Tick n)
  then show ?thesis using assms by (simp add: getStrokes_def split: option.splits)
qed

lemma getStrokes_quiet_run:
  "getStrokes st r = [] \<Longrightarrow> \<forall>e \<in> set evs. \<not> strokes_arrive e \<Longrightarrow> getStrokes (run evs st) r = []"
  by (induction evs arbitrary: st) (simp_all add: getStrokes_quiet_step)

lemma resume_pushes_strokes:
  assumes "(t, r) \<in> set (pending_finds st)" "t \<in> set (sockets st)"
  shows "(t, WhiteboardInitial (getStrokes st r)) \<in> set (new_deliveries st (step (FindDone t r ok) st))"
proof -
  let ?st0 = "st\<lparr>pending_finds := remove1 (t, r) (pending_finds st)\<rparr>"
  have g: "getStrokes ?st0 r = getStrokes st r"
    by (rule store_reads_cong) simp_all
  show ?thesis
    using assms unfolding new_deliveries_def
    by (simp add: delivered_resume g filter_empty_conv)
qed

text \<open>
  C6: an undo and a redo with the same payload leave the same stroke logs
  behind, in the same arrays; in each room the sending socket holds a closure for, the log becomes
  the sequence of the payload (the empty one when the payload has none). A
  clear makes the log of each such room empty, whatever it was, and as long as
  no draw, undo or redo arrives, every join that resumes for such a room pushes
  the empty sequence to the joining socket.
\<close>
theorem C6_undo_redo_clear:
  "whiteboardData (step (Client s (EvWhiteboardUndo ks)) st) =
     whiteboardData (step (Client s (EvWhiteboardRedo ks)) st) \<and>
   getStrokes (step (Client s (EvWhiteboardUndo ks)) st) =
     getStrokes (step (Client s (EvWhiteboardRedo ks)) st) \<and>
   (s \<in> set (sockets st) \<and> r \<in> set (listeners st s) \<longrightarrow>
      getStrokes (step (Client s (EvWhiteboardUndo ks)) st) r = or_empty ks \<and>
      getStrokes (step (Client s (EvWhiteboardRedo ks)) st) r = or_empty ks \<and>
      getStrokes (step (Client s EvWhiteboardClear) st) r = [] \<and>
      ((\<forall>e \<in> set evs. \<not> strokes_arrive e) \<longrightarrow>
         getStrokes (run evs (step (Client s EvWhiteboardClear) st)) r = [] \<and>
         ((t, r) \<in> set (pending_finds (run evs (step (Client s EvWhiteboardClear) st))) \<and>
          t \<in> set (sockets (run evs (step (Client s EvWhiteboardClear) st))) \<longrightarrow>
            (t, WhiteboardInitial []) \<in>
               set (new_deliveries (run evs (step (Client s EvWhiteboardClear) st))
                     (step (FindDone t r ok) (run evs (step (Client s EvWhiteboardClear) st)))))))"
proof -
  have 1: "whiteboardData (step (Client s (EvWhiteboardUndo ks)) st) =
     whiteboardData (step (Client s (EvWhiteboardRedo ks)) st)"
    using dispatch_undo_redo [where st = "snd (receive_array ks st)"
        and st' = "snd (receive_array ks st)" and s = s and p = "fst (receive_array ks st)"
        and rs = "listeners st s"]
    by simp
  have "arrays (step (Client s (EvWhiteboardUndo ks)) st) =
     arrays (step (Client s (EvWhiteboardRedo ks)) st)"
    using dispatch_undo_redo [where st = "snd (receive_array ks st)"
        and st' = "snd (receive_array ks st)" and s = s and p = "fst (receive_array ks st)"
        and rs = "listeners st s"]
    by simp
  with 1 have g: "getStrokes (step (Client s (EvWhiteboardUndo ks)) st) =
     getStrokes (step (Client s (EvWhiteboardRedo ks)) st)"
    by (intro ext) (simp only: getStrokes_def)
  have 2: "getStrokes (step (Client s (EvWhiteboardUndo ks)) st) r = or_empty ks \<and>
      getStrokes (step (Client s (EvWhiteboardRedo ks)) st) r = or_empty ks \<and>
      getStrokes (step (Client s EvWhiteboardClear) st) r = []"
    if "s \<in> set (sockets st)" "r \<in> set (listeners st s)"
    using that getStrokes_undo [OF that(2), of ks] getStrokes_redo [OF that(2), of ks]
      getStrokes_clear [OF that(2)]
    by auto
  have 3: "getStrokes (run evs (step (Client s EvWhiteboardClear) st)) r = [] \<and>
         ((t, r) \<in> set (pending_finds (run evs (step (Client s EvWhiteboardClear) st))) \<and>
          t \<in> set (sockets (run evs (step (Client s EvWhiteboardClear) st))) \<longrightarrow>
            (t, WhiteboardInitial []) \<in>
               set (new_deliveries (run evs (step (Client s EvWhiteboardClear) st))
                     (step (FindDone t r ok) (run evs (step (Client s EvWhiteboardClear) st)))))"
    if a: "s \<in> set (sockets st)" "r \<in> set (listeners st s)" "\<forall>e \<in> set evs. \<not> strokes_arrive e"
  proof -
    let ?st' = "run evs (step (Client s EvWhiteboardClear) st)"
    have "getStrokes (step (Client s EvWhiteboardClear) st) r = []" using 2 a by blast
    then have e: "getStrokes ?st' r = []" using a(3) by (rule getStrokes_quiet_run)
    then show ?thesis using resume_pushes_strokes [of t r ?st' ok] by auto
  qed
  show ?thesis using 1 g 2 3 by blast
qed

theorem C6_witness:
  "''s'' \<in> set (sockets (run one_member_drawing (init []))) \<and>
   ''r'' \<in> set (listeners (run one_member_drawing (init [])) ''s'') \<and>
   getStrokes (run one_member_drawing (init [])) ''r'' = [''k''] \<and>
   getStrokes (step (Client ''s'' (EvWhiteboardUndo (Some [''a'', ''b''])))
      (run one_member_drawing (init []))) ''r'' = [''a'', ''b''] \<and>
   getStrokes (step (Client ''s'' (EvWhiteboardRedo (Some [''a'', ''b''])))
      (run one_member_drawing (init []))) ''r'' = [''a'', ''b''] \<and>
   getStrokes (step (Client ''s'' EvWhiteboardClear) (run one_member_drawing (init []))) ''r'' = [] \<and>
   \<not> strokes_arrive (Client ''t'' (EvJoinRoom (Some ''r'') (Some ''tom''))) \<and>
   (''t'', WhiteboardInitial []) \<in>
      set (new_deliveries
            (run [Client ''t'' (EvJoinRoom (Some ''r'') (Some ''tom''))]
               (step (Client ''s'' EvWhiteboardClear) (run one_member_drawing (init []))))
            (step (FindDone ''t'' ''r'' True)
               (run [Client ''t'' (EvJoinRoom (Some ''r'') (Some ''tom''))]
                  (step (Client ''s'' EvWhiteboardClear) (run one_member_drawing (init []))))))"
proof -
  define st0 where "st0 = run one_member_drawing (init [])"
  define st1 where "st1 = run [Client ''t'' (EvJoinRoom (Some ''r'') (Some ''tom''))]
               (step (Client ''s'' EvWhiteboardClear) st0)"
  have a: "''s'' \<in> set (sockets st0)" "''r'' \<in> set (listeners st0 ''s'')"
    "getStrokes st0 ''r'' = [''k'']"
    unfolding st0_def by (simp_all add: one_member_drawing_def handler_defs getStrokes_def)
  have b: "(''t'', ''r'') \<in> set (pending_finds st1)" "''t'' \<in> set (sockets st1)"
    unfolding st1_def st0_def by (simp_all add: one_member_drawing_def handler_defs)
  have q: "\<forall>e \<in> set [Client ''t'' (EvJoinRoom (Some ''r'') (Some ''tom''))]. \<not> strokes_arrive e"
    by simp
  note T = C6_undo_redo_clear [of "''s''" "Some [''a'', ''b'']" st0 "''r''"
      "[Client ''t'' (EvJoinRoom (Some ''r'') (Some ''tom''))]" "''t''" True, folded st1_def]
  from T a q b have
    "getStrokes (step (Client ''s'' (EvWhiteboardUndo (Some [''a'', ''b'']))) st0) ''r'' = or_empty (Some [''a'', ''b''])"
    "getStrokes (step (Client ''s'' (EvWhiteboardRedo (Some [''a'', ''b'']))) st0) ''r'' = or_empty (Some [''a'', ''b''])"
    "getStrokes (step (Client ''s'' EvWhiteboardClear) st0) ''r'' = []"
    "(''t'', WhiteboardInitial []) \<in> set (new_deliveries st1 (step (FindDone ''t'' ''r'' True) st1))"
    by blast+
  then show ?thesis
    using a q unfolding st1_def st0_def by (simp add: or_empty_def)
qed

subsection \<open>Relaying signaling messages\<close>

text \<open>
  A socket gets into the adapter room \<open>x\<close> in two ways only: by connecting with the
  id \<open>x\<close>, or by emitting \<^verbatim>\<open>join-room\<close> with the room key \<open>x\<close>.
\<close>
lemma adapter_join:
  "t \<in> set (adapter (join_room s ra ua st) x) \<Longrightarrow>
   t \<in> set (adapter st x) \<or> (t = s \<and> ra = Some x)"
  by (auto simp: join_room_def Let_def emit_defs key_of_def truthy_def
      split: if_splits option.splits)

lemma adapter_step:
  assumes "t \<in> set (adapter (step e st) x)"
  shows "t \<in> set (adapter st x) \<or> (t = x \<and> e = Connect x) \<or>
         (\<exists>u. e = Client t (EvJoinRoom (Some x) u))"
proof (cases e)
  case (Connect s)
  then show ?thesis using assms by (auto split: if_splits)
next
  case (Client s ev)
  show ?thesis
  proof (cases "\<exists>ra ua. ev = EvJoinRoom ra ua")
    case True
    then show ?thesis using assms Client by (auto split: if_splits dest: adapter_join)
  next
    case False
    then have "same_tables st (client_step s ev st)" by (intro same_tables_client) simp
    then show ?thesis using assms Client by (auto simp: same_tables_def split: if_splits)
  qed
next
  case (Disconnect s)
  have "adapter (dispatch (disconnect_handler s) rs st') = adapter st'" for rs st'
    by (rule dispatch_field) (simp add: disconnect_fields)
  then show ?thesis using assms Disconnect by (auto split: if_splits)
next
  case (FindDone s r ok)
  then show ?thesis using assms by (auto simp: resume_fields split: if_splits)
next
  case (CreateDone i ok)
  then show ?thesis using assms
    by (auto simp: send_message_resume_def emit_defs split: if_splits)
next
  case (Tick n)
  then show ?thesis using assms by simp
qed

lemma adapter_run:
  "t \<in> set (adapter (run evs st) x) \<Longrightarrow>
   t \<in> set (adapter st x) \<or> (t = x \<and> Connect x \<in> set evs) \<or>
   (\<exists>u. Client t (EvJoinRoom (Some x) u) \<in> set evs)"
proof (induction evs arbitrary: st)
  case Nil
  then show ?case by simp
next
  case (Cons e es)
  from Cons.IH [of "step e st"] Cons.prems
  have "t \<in> set (adapter (step e st) x) \<or> (t = x \<and> Connect x \<in> set es) \<or>
        (\<exists>u. Client t (EvJoinRoom (Some x) u) \<in> set es)"
    by simp
  then show ?case using adapter_step [of t e st x] by auto
qed

lemma nobody_in_room:
  assumes "x \<notin> set (sockets (run evs (init coll)))"
    and "\<forall>t \<in> set (sockets (run evs (init coll))). \<forall>u. Client t (EvJoinRoom (Some x) u) \<notin> set evs"
  shows "in_room (run evs (init coll)) x = []"
proof -
  have "t \<notin> set (in_room (run evs (init coll)) x)" for t
  proof
    assume "t \<in> set (in_room (run evs (init coll)) x)"
    then have t: "t \<in> set (sockets (run evs (init coll)))" "t \<in> set (adapter (run evs (init coll)) x)"
      by (simp_all add: in_room_def)
    from adapter_run [OF t(2)] have "t = x \<or> (\<exists>u. Client t (EvJoinRoom (Some x) u) \<in> set evs)"
      by (auto simp: init_def)
    with t(1) assms show False by blast
  qed
  then show ?thesis by (cases "in_room (run evs (init coll)) x") auto
qed

text \<open>
  C7, as the code has it: an offer, answer or ice-candidate with a non-empty
  target, received from a connected socket, changes nothing but the delivery
  log. Each registered handler of the sender emits the payload, with the
  sender's id as caller (or from), to every connected socket in the Socket.IO
  room named by the target; in a reachable state a connected socket whose id is
  the target is one of them. When no connected socket is in that room, or the
  target is missing or empty, the state stays as it was. In a reachable state
  that is so whenever the target is the id of no connected socket (unknown, or
  disconnected) and no connected socket has emitted \<^verbatim>\<open>join-room\<close> with the target
  as room key.
\<close>
theorem C7_signaling_relay:
  "(s \<in> set (sockets st) \<and> x \<noteq> [] \<longrightarrow>
      step (Client s (EvOffer (Some x) d)) st =
        st\<lparr>delivered := delivered st @ concat (replicate (length (listeners st s))
               (map (\<lambda>t. (t, Offer d s)) (in_room st x)))\<rparr> \<and>
      step (Client s (EvAnswer (Some x) d)) st =
        st\<lparr>delivered := delivered st @ concat (replicate (length (listeners st s))
               (map (\<lambda>t. (t, Answer d s)) (in_room st x)))\<rparr> \<and>
      step (Client s (EvIceCandidate (Some x) d)) st =
        st\<lparr>delivered := delivered st @ concat (replicate (length (listeners st s))
               (map (\<lambda>t. (t, IceCandidate d s)) (in_room st x)))\<rparr>) \<and>
   (in_room st x = [] \<longrightarrow>
      step (Client s (EvOffer (Some x) d)) st = st \<and>
      step (Client s (EvAnswer (Some x) d)) st = st \<and>
      step (Client s (EvIceCandidate (Some x) d)) st = st) \<and>
   (\<not> truthy target \<longrightarrow>
      step (Client s (EvOffer target d)) st = st \<and>
      step (Client s (EvAnswer target d)) st = st \<and>
      step (Client s (EvIceCandidate target d)) st = st) \<and>
   (x \<in> set (sockets (run evs (init coll))) \<longrightarrow> x \<in> set (in_room (run evs (init coll)) x)) \<and>
   (x \<notin> set (sockets (run evs (init coll))) \<and>
    (\<forall>t \<in> set (sockets (run evs (init coll))). \<forall>u. Client t (EvJoinRoom (Some x) u) \<notin> set evs) \<longrightarrow>
      in_room (run evs (init coll)) x = [] \<and>
      step (Client c (EvOffer (Some x) d)) (run evs (init coll)) = run evs (init coll) \<and>
      step (Client c (EvAnswer (Some x) d)) (run evs (init coll)) = run evs (init coll) \<and>
      step (Client c (EvIceCandidate (Some x) d)) (run evs (init coll)) = run evs (init coll))"
proof -
  have o: "dispatch (offer q (Some x) d) rs st' =
        st'\<lparr>delivered := delivered st' @ concat (replicate (length rs)
               (map (\<lambda>t. (t, Offer d q)) (in_room st' x)))\<rparr>" if "x \<noteq> []" for rs st' q
    by (rule dispatch_io_to_emit) (use that in \<open>simp add: offer_def truthy_def key_of_def\<close>)
  have a: "dispatch (answer q (Some x) d) rs st' =
        st'\<lparr>delivered := delivered st' @ concat (replicate (length rs)
               (map (\<lambda>t. (t, Answer d q)) (in_room st' x)))\<rparr>" if "x \<noteq> []" for rs st' q
    by (rule dispatch_io_to_emit) (use that in \<open>simp add: answer_def truthy_def key_of_def\<close>)
  have c: "dispatch (ice_candidate q (Some x) d) rs st' =
        st'\<lparr>delivered := delivered st' @ concat (replicate (length rs)
               (map (\<lambda>t. (t, IceCandidate d q)) (in_room st' x)))\<rparr>" if "x \<noteq> []" for rs st' q
    by (rule dispatch_io_to_emit) (use that in \<open>simp add: ice_candidate_def truthy_def key_of_def\<close>)
  have f: "dispatch (offer q y d) rs st' = st' \<and> dispatch (answer q y d) rs st' = st' \<and>
    dispatch (ice_candidate q y d) rs st' = st'" if "\<not> truthy y" for y rs st' q
  proof -
    have "\<And>r0 st0. offer q y d r0 st0 = st0" "\<And>r0 st0. answer q y d r0 st0 = st0"
      "\<And>r0 st0. ice_candidate q y d r0 st0 = st0"
      using that by (simp_all add: offer_def answer_def ice_candidate_def)
    then show ?thesis by (simp add: dispatch_id)
  qed
  have e: "dispatch (offer q (Some x) d) rs st' = st'" "dispatch (answer q (Some x) d) rs st' = st'"
    "dispatch (ice_candidate q (Some x) d) rs st' = st'" if "in_room st' x = []" "x \<noteq> []"
    for rs st' q
    using that by (simp_all add: o a c)
  have g: "step (Client q (EvOffer (Some x) d)) st' = st' \<and>
      step (Client q (EvAnswer (Some x) d)) st' = st' \<and>
      step (Client q (EvIceCandidate (Some x) d)) st' = st'" if "in_room st' x = []" for st' q
  proof (cases "x = []")
    case True
    then have "\<not> truthy (Some x)" by (simp add: truthy_def)
    then show ?thesis using f [of "Some x"] by simp
  next
    case False
    then show ?thesis using e that by simp
  qed
  have 1: "s \<in> set (sockets st) \<and> x \<noteq> [] \<longrightarrow>
      step (Client s (EvOffer (Some x) d)) st =
        st\<lparr>delivered := delivered st @ concat (replicate (length (listeners st s))
               (map (\<lambda>t. (t, Offer d s)) (in_room st x)))\<rparr> \<and>
      step (Client s (EvAnswer (Some x) d)) st =
        st\<lparr>delivered := delivered st @ concat (replicate (length (listeners st s))
               (map (\<lambda>t. (t, Answer d s)) (in_room st x)))\<rparr> \<and>
      step (Client s (EvIceCandidate (Some x) d)) st =
        st\<lparr>delivered := delivered st @ concat (replicate (length (listeners st s))
               (map (\<lambda>t. (t, IceCandidate d s)) (in_room st x)))\<rparr>"
    by (simp add: o a c)
  have 2: "in_room st x = [] \<longrightarrow>
      step (Client s (EvOffer (Some x) d)) st = st \<and>
      step (Client s (EvAnswer (Some x) d)) st = st \<and>
      step (Client s (EvIceCandidate (Some x) d)) st = st"
    using g by blast
  have 5: "x \<notin> set (sockets (run evs (init coll))) \<and>
    (\<forall>t \<in> set (sockets (run evs (init coll))). \<forall>u. Client t (EvJoinRoom (Some x) u) \<notin> set evs) \<longrightarrow>
      in_room (run evs (init coll)) x = [] \<and>
      step (Client c (EvOffer (Some x) d)) (run evs (init coll)) = run evs (init coll) \<and>
      step (Client c (EvAnswer (Some x) d)) (run evs (init coll)) = run evs (init coll) \<and>
      step (Client c (EvIceCandidate (Some x) d)) (run evs (init coll)) = run evs (init coll)"
    using nobody_in_room [of x evs coll] g [of "run evs (init coll)" c] by blast
  have 4: "\<not> truthy target \<longrightarrow>
      step (Client s (EvOffer target d)) st = st \<and>
      step (Client s (EvAnswer target d)) st = st \<and>
      step (Client s (EvIceCandidate target d)) st = st"
    using f [of target] by simp
  have 3: "x \<in> set (sockets (run evs (init coll))) \<longrightarrow> x \<in> set (in_room (run evs (init coll)) x)"
    using own_room [OF inv_run [OF inv_init]] by blast
  show ?thesis using 1 2 3 4 5 by blast
qed

text \<open>
  Socket \<open>s1\<close> reaches the connected socket \<open>s2\<close>. Once \<open>s2\<close> has disconnected, an
  offer of \<open>s1\<close> for \<open>s2\<close>, and one for an id that was never handed out, reach nobody
  and leave the state as it was.
\<close>
theorem C7_witness:
  "''s1'' \<in> set (sockets (run pair_in_r1 (init []))) \<and>
   ''s2'' \<in> set (sockets (run pair_in_r1 (init []))) \<and>
   ''s2'' \<in> set (in_room (run pair_in_r1 (init [])) ''s2'') \<and>
   new_deliveries (run pair_in_r1 (init []))
     (step (Client ''s1'' (EvOffer (Some ''s2'') ''sdp'')) (run pair_in_r1 (init []))) =
     [(''s2'', Offer ''sdp'' ''s1'')] \<and>
   new_deliveries (run pair_in_r1 (init []))
     (step (Client ''s1'' (EvIceCandidate (Some ''s2'') ''cand'')) (run pair_in_r1 (init []))) =
     [(''s2'', IceCandidate ''cand'' ''s1'')] \<and>
   in_room (run pair_in_r1 (init [])) ''gone'' = [] \<and>
   step (Client ''s1'' (EvOffer (Some ''gone'') ''sdp'')) (run pair_in_r1 (init [])) =
     run pair_in_r1 (init []) \<and>
   \<not> truthy None \<and>
   step (Client ''s1'' (EvAnswer None ''sdp'')) (run pair_in_r1 (init [])) =
     run pair_in_r1 (init []) \<and>
   sockets (run s2_gone (init [])) = [''s1''] \<and>
   ''s2'' \<in> used_ids (run s2_gone (init [])) \<and>
   in_room (run s2_gone (init [])) ''s2'' = [] \<and>
   step (Client ''s1'' (EvOffer (Some ''s2'') ''sdp'')) (run s2_gone (init [])) =
     run s2_gone (init []) \<and>
   step (Client ''s1'' (EvIceCandidate (Some ''s2'') ''sdp'')) (run s2_gone (init [])) =
     run s2_gone (init [])"
proof -
  define st0 where "st0 = run pair_in_r1 (init [])"
  define st1 where "st1 = run s2_gone (init [])"
  have a: "''s1'' \<in> set (sockets st0)" "''s2'' \<in> set (sockets st0)"
    "listeners st0 ''s1'' = [''r1'']" "in_room st0 ''s2'' = [''s2'']" "in_room st0 ''gone'' = []"
    unfolding st0_def by (simp_all add: pair_in_r1_def handler_defs)
  have b: "sockets st1 = [''s1'']" "''s2'' \<in> used_ids st1"
    unfolding st1_def by (simp_all add: s2_gone_def pair_in_r1_def handler_defs)
  have b': "''s2'' \<notin> set (sockets st1)"
    "\<forall>t \<in> set (sockets st1). \<forall>u. Client t (EvJoinRoom (Some ''s2'') u) \<notin> set s2_gone"
    unfolding b(1) by (simp_all add: s2_gone_def pair_in_r1_def)
  have nz: "''s2'' \<noteq> []" "\<not> truthy None" by (simp_all add: truthy_def)
  note T = C7_signaling_relay [where s = "''s1''" and st = st0 and x = "''s2''" and target = None
      and evs = pair_in_r1 and coll = "[]" and c = "''s1''", folded st0_def]
  note G = C7_signaling_relay [where s = "''s1''" and st = st0 and x = "''gone''" and d = "''sdp''"
      and target = None and evs = pair_in_r1 and coll = "[]" and c = "''s1''", folded st0_def]
  note D = C7_signaling_relay [where s = "''s1''" and st = st1 and x = "''s2''" and d = "''sdp''"
      and target = None and evs = s2_gone and coll = "[]" and c = "''s1''", folded st1_def]
  from T [where d = "''sdp''"] a(1) nz have
    "step (Client ''s1'' (EvOffer (Some ''s2'') ''sdp'')) st0 =
        st0\<lparr>delivered := delivered st0 @ concat (replicate (length (listeners st0 ''s1''))
               (map (\<lambda>t. (t, Offer ''sdp'' ''s1'')) (in_room st0 ''s2'')))\<rparr>"
    by blast
  then have 1: "new_deliveries st0 (step (Client ''s1'' (EvOffer (Some ''s2'') ''sdp'')) st0) =
     [(''s2'', Offer ''sdp'' ''s1'')]"
    by (simp add: new_deliveries_def a)
  from T [where d = "''cand''"] a(1) nz have
    "step (Client ''s1'' (EvIceCandidate (Some ''s2'') ''cand'')) st0 =
        st0\<lparr>delivered := delivered st0 @ concat (replicate (length (listeners st0 ''s1''))
               (map (\<lambda>t. (t, IceCandidate ''cand'' ''s1'')) (in_room st0 ''s2'')))\<rparr>"
    by blast
  then have 2: "new_deliveries st0 (step (Client ''s1'' (EvIceCandidate (Some ''s2'') ''cand'')) st0) =
     [(''s2'', IceCandidate ''cand'' ''s1'')]"
    by (simp add: new_deliveries_def a)
  from T [where d = "''sdp''"] a(2) have 3: "''s2'' \<in> set (in_room st0 ''s2'')" by blast
  from T [where d = "''sdp''"] nz have 4: "step (Client ''s1'' (EvAnswer None ''sdp'')) st0 = st0"
    by blast
  from G a(5) have 5: "step (Client ''s1'' (EvOffer (Some ''gone'') ''sdp'')) st0 = st0" by blast
  from D b' have 6: "in_room st1 ''s2'' = []"
    "step (Client ''s1'' (EvOffer (Some ''s2'') ''sdp'')) st1 = st1"
    "step (Client ''s1'' (EvIceCandidate (Some ''s2'') ''sdp'')) st1 = st1"
    by blast+
  show ?thesis using a(1,2,5) nz(2) 1 2 3 4 5 b 6 unfolding st0_def st1_def by blast
qed

text \<open>
  The target \<open>r1\<close> is the key of a room and the id of no connection, past or
  present; an offer with that target is delivered to both sockets in the room,
  the sender among them.
\<close>
theorem C7_counterexample:
  "''r1'' \<notin> set (sockets (run pair_in_r1 (init []))) \<and>
   ''r1'' \<notin> used_ids (run pair_in_r1 (init [])) \<and>
   new_deliveries (run pair_in_r1 (init []))
     (step (Client ''s1'' (EvOffer (Some ''r1'') ''sdp'')) (run pair_in_r1 (init []))) =
     [(''s1'', Offer ''sdp'' ''s1''), (''s2'', Offer ''sdp'' ''s1'')]"
  by (simp add: pair_in_r1_def handler_defs new_deliveries_def)

subsection \<open>Sending a chat message\<close>

lemma send_message_queued:
  "r \<noteq> [] \<Longrightarrow> t \<noteq> [] \<Longrightarrow>
   send_message s (Some r) a (Some t) r0 st =
     st\<lparr>pending_creates := pending_creates st @
          [\<lparr>roomId = r,
            sender = (case a of None \<Rightarrow> ''Guest'' | Some x \<Rightarrow> if x = [] then ''Guest'' else x),
            text_field = t, createdAt = clock st\<rparr>]\<rparr>"
  by (simp add: send_message_def truthy_def key_of_def split: option.splits)

lemma dispatch_send_message:
  assumes "r \<noteq> []" "t \<noteq> []"
  shows "dispatch (send_message s (Some r) a (Some t)) rs st =
     st\<lparr>pending_creates := pending_creates st @
          replicate (length rs)
            \<lparr>roomId = r,
             sender = (case a of None \<Rightarrow> ''Guest'' | Some x \<Rightarrow> if x = [] then ''Guest'' else x),
             text_field = t, createdAt = clock st\<rparr>\<rparr>"
proof (induction rs arbitrary: st)
  case Nil
  show ?case by simp
next
  case (Cons x xs)
  let ?h = "send_message s (Some r) a (Some t)"
  let ?m = "\<lambda>c. \<lparr>roomId = r,
             sender = (case a of None \<Rightarrow> ''Guest'' | Some x \<Rightarrow> if x = [] then ''Guest'' else x),
             text_field = t, createdAt = c\<rparr>"
  let ?st1 = "st\<lparr>pending_creates := pending_creates st @ [?m (clock st)]\<rparr>"
  have e: "?h x st = ?st1" by (rule send_message_queued [OF assms])
  have "dispatch ?h (x # xs) st = dispatch ?h xs (?h x st)" by simp
  also have "\<dots> = dispatch ?h xs ?st1" by (simp only: e)
  also have "\<dots> = ?st1\<lparr>pending_creates := pending_creates ?st1 @
          replicate (length xs) (?m (clock ?st1))\<rparr>"
    by (rule Cons.IH)
  also have "\<dots> = st\<lparr>pending_creates := pending_creates st @
          replicate (length (x # xs)) (?m (clock st))\<rparr>"
    by simp
  finally show ?case .
qed

text \<open>
  C8: a \<^verbatim>\<open>send-message\<close> event whose room or text is missing or empty leaves the
  whole state as it was: nothing is queued for the store, persisted or delivered.
  With both present, every registered handler of the sending socket hands the
  store one document for the payload's room, its sender replaced by "Guest"
  when missing or empty; until the store answers, collection and delivery log
  are unchanged. When the store confirms a document it is appended to the
  collection and sent to every socket in the room of the document, and to
  nobody else; when the store fails, nothing is persisted or sent.
\<close>
theorem C8_send_message:
  "(\<not> truthy r_arg \<or> \<not> truthy text_arg \<longrightarrow>
      step (Client s (EvSendMessage r_arg sender_arg text_arg)) st = st) \<and>
   (s \<in> set (sockets st) \<and> r \<noteq> [] \<and> t \<noteq> [] \<longrightarrow>
      step (Client s (EvSendMessage (Some r) sender_arg (Some t))) st =
        st\<lparr>pending_creates := pending_creates st @
             replicate (length (listeners st s))
               \<lparr>roomId = r,
                sender = (case sender_arg of None \<Rightarrow> ''Guest''
                          | Some x \<Rightarrow> if x = [] then ''Guest'' else x),
                text_field = t, createdAt = clock st\<rparr>\<rparr>) \<and>
   (i < length (pending_creates st) \<longrightarrow>
      Message_collection (step (CreateDone i True) st) =
        Message_collection st @ [pending_creates st ! i] \<and>
      new_deliveries st (step (CreateDone i True) st) =
        map (\<lambda>t. (t, MessageNew (pending_creates st ! i)))
          (in_room st (roomId (pending_creates st ! i))) \<and>
      Message_collection (step (CreateDone i False) st) = Message_collection st \<and>
      new_deliveries st (step (CreateDone i False) st) = [])"
proof -
  have 1: "\<not> truthy r_arg \<or> \<not> truthy text_arg \<longrightarrow>
      step (Client s (EvSendMessage r_arg sender_arg text_arg)) st = st"
  proof
    assume "\<not> truthy r_arg \<or> \<not> truthy text_arg"
    then have "\<And>r0 st'. send_message s r_arg sender_arg text_arg r0 st' = st'"
      by (auto simp: send_message_def)
    then show "step (Client s (EvSendMessage r_arg sender_arg text_arg)) st = st"
      by (simp add: dispatch_id)
  qed
  have 2: "s \<in> set (sockets st) \<and> r \<noteq> [] \<and> t \<noteq> [] \<longrightarrow>
      step (Client s (EvSendMessage (Some r) sender_arg (Some t))) st =
        st\<lparr>pending_creates := pending_creates st @
             replicate (length (listeners st s))
               \<lparr>roomId = r,
                sender = (case sender_arg of None \<Rightarrow> ''Guest''
                          | Some x \<Rightarrow> if x = [] then ''Guest'' else x),
                text_field = t, createdAt = clock st\<rparr>\<rparr>"
    by (simp add: dispatch_send_message)
  have 3: "i < length (pending_creates st) \<longrightarrow>
      Message_collection (step (CreateDone i True) st) =
        Message_collection st @ [pending_creates st ! i] \<and>
      new_deliveries st (step (CreateDone i True) st) =
        map (\<lambda>t. (t, MessageNew (pending_creates st ! i)))
          (in_room st (roomId (pending_creates st ! i))) \<and>
      Message_collection (step (CreateDone i False) st) = Message_collection st \<and>
      new_deliveries st (step (CreateDone i False) st) = []"
    by (simp add: send_message_resume_def emit_defs new_deliveries_def in_room_def)
  show ?thesis using 1 2 3 by blast
qed

theorem C8_witness:
  "\<not> truthy (Some []) \<and>
   step (Client ''s'' (EvSendMessage (Some ''r'') None (Some [])))
     (run one_member_drawing (init [])) = run one_member_drawing (init []) \<and>
   ''s'' \<in> set (sockets (run one_member_drawing (init []))) \<and>
   pending_creates (step (Client ''s'' (EvSendMessage (Some ''r'') None (Some ''hello'')))
     (run one_member_drawing (init []))) =
     [\<lparr>roomId = ''r'', sender = ''Guest'', text_field = ''hello'', createdAt = 0\<rparr>] \<and>
   Message_collection (step (CreateDone 0 True)
     (step (Client ''s'' (EvSendMessage (Some ''r'') None (Some ''hello'')))
        (run one_member_drawing (init [])))) =
     [\<lparr>roomId = ''r'', sender = ''Guest'', text_field = ''hello'', createdAt = 0\<rparr>] \<and>
   new_deliveries
     (step (Client ''s'' (EvSendMessage (Some ''r'') None (Some ''hello'')))
        (run one_member_drawing (init [])))
     (step (CreateDone 0 True)
        (step (Client ''s'' (EvSendMessage (Some ''r'') None (Some ''hello'')))
           (run one_member_drawing (init [])))) =
     [(''s'', MessageNew \<lparr>roomId = ''r'', sender = ''Guest'', text_field = ''hello'', createdAt = 0\<rparr>)]"
proof -
  define st0 where "st0 = run one_member_drawing (init [])"
  define st1 where "st1 = step (Client ''s'' (EvSendMessage (Some ''r'') None (Some ''hello''))) st0"
  let ?m = "\<lparr>roomId = ''r'', sender = ''Guest'', text_field = ''hello'', createdAt = 0\<rparr>"
  have a: "''s'' \<in> set (sockets st0)" "listeners st0 ''s'' = [''r'']" "pending_creates st0 = []"
    "clock st0 = 0" "in_room st0 ''r'' = [''s'']" "Message_collection st0 = []"
    unfolding st0_def by (simp_all add: one_member_drawing_def handler_defs)
  have b: "\<not> truthy (Some [])" by (simp add: truthy_def)
  have nz: "''r'' \<noteq> []" "''hello'' \<noteq> []" by simp_all
  note T1 = C8_send_message [of "Some ''r''" "Some []" "''s''" None st0 "''r''" "''hello''" 0]
  from T1 b have p1: "step (Client ''s'' (EvSendMessage (Some ''r'') None (Some []))) st0 = st0"
    by blast
  from T1 a(1) nz have "st1 = st0\<lparr>pending_creates := pending_creates st0 @
             replicate (length (listeners st0 ''s''))
               \<lparr>roomId = ''r'',
                sender = (case None of None \<Rightarrow> ''Guest''
                          | Some x \<Rightarrow> if x = [] then ''Guest'' else x),
                text_field = ''hello'', createdAt = clock st0\<rparr>\<rparr>"
    unfolding st1_def by blast
  then have c: "st1 = st0\<lparr>pending_creates := [?m]\<rparr>" by (simp add: a)
  have d: "pending_creates st1 = [?m]" "in_room st1 ''r'' = [''s'']" "Message_collection st1 = []"
    using a by (simp_all add: c in_room_def)
  note T2 = C8_send_message [of "Some ''r''" "Some []" "''s''" None st1 "''r''" "''hello''" 0]
  from d have "0 < length (pending_creates st1)" by simp
  with T2 have "Message_collection (step (CreateDone 0 True) st1) =
        Message_collection st1 @ [pending_creates st1 ! 0] \<and>
      new_deliveries st1 (step (CreateDone 0 True) st1) =
        map (\<lambda>t. (t, MessageNew (pending_creates st1 ! 0)))
          (in_room st1 (roomId (pending_creates st1 ! 0)))"
    by blast
  then have p3: "Message_collection (step (CreateDone 0 True) st1) = [?m]"
    "new_deliveries st1 (step (CreateDone 0 True) st1) = [(''s'', MessageNew ?m)]"
    by (simp_all add: d)
  show ?thesis
    using b p1 a(1) d(1) p3 unfolding st1_def st0_def by blast
qed

subsection \<open>Updating a task board\<close>

lemma taskBoards_get_set:
  "taskBoards st ''__proto__'' = None \<Longrightarrow> taskBoards_get (taskBoards_set r b st) r = Some (Board b)"
  by (simp add: taskBoards_get_def taskBoards_set_def)

text \<open>
  C9: in every reachable state, a \<^verbatim>\<open>tasks:update\<close> with room \<open>r\<close> and board \<open>b\<close>
  from a connected socket that has completed a join (of any room) performs the
  assignment \<^verbatim>\<open>taskBoards[r] = b\<close> and sends \<open>b\<close>, once per registered handler, to the
  sockets in room \<open>r\<close>, among them every connected socket with an entry in the
  membership list of \<open>r\<close>; nothing else changes. Afterwards \<^verbatim>\<open>taskBoards[r]\<close> reads
  \<open>b\<close>. For every key but \<^verbatim>\<open>__proto__\<close> the assignment sets the own property \<open>r\<close> and
  leaves the prototype alone; for \<^verbatim>\<open>__proto__\<close> it makes \<open>b\<close> the prototype of
  \<^verbatim>\<open>taskBoards\<close> and sets no own property, so that a key \<^verbatim>\<open>todo\<close> without a stored
  board then reads the list \<^verbatim>\<open>b.todo\<close>. No condition relates the sender to \<open>r\<close>: the
  room read from the payload is the only key.
\<close>
theorem C9_tasks_update_keyed_by_payload:
  "(s \<in> set (sockets (run evs (init coll))) \<and> listeners (run evs (init coll)) s \<noteq> [] \<and> r \<noteq> [] \<longrightarrow>
      step (Client s (EvTasksUpdate (Some r) (Some b))) (run evs (init coll)) =
        (taskBoards_set r b (run evs (init coll)))
          \<lparr>delivered := delivered (run evs (init coll)) @
             concat (replicate (length (listeners (run evs (init coll)) s))
               (map (\<lambda>t. (t, TasksUpdate (Board b))) (in_room (run evs (init coll)) r)))\<rparr> \<and>
      taskBoards_get (step (Client s (EvTasksUpdate (Some r) (Some b))) (run evs (init coll))) r =
        Some (Board b) \<and>
      (r \<noteq> ''__proto__'' \<longrightarrow>
         taskBoards (step (Client s (EvTasksUpdate (Some r) (Some b))) (run evs (init coll))) =
           (taskBoards (run evs (init coll)))(r \<mapsto> b) \<and>
         taskBoards_proto (step (Client s (EvTasksUpdate (Some r) (Some b))) (run evs (init coll))) =
           taskBoards_proto (run evs (init coll))) \<and>
      (r = ''__proto__'' \<longrightarrow>
         taskBoards (step (Client s (EvTasksUpdate (Some r) (Some b))) (run evs (init coll))) =
           taskBoards (run evs (init coll)) \<and>
         taskBoards_proto (step (Client s (EvTasksUpdate (Some r) (Some b))) (run evs (init coll))) =
           Some b \<and>
         (taskBoards (run evs (init coll)) ''todo'' = None \<longrightarrow>
            taskBoards_get (step (Client s (EvTasksUpdate (Some r) (Some b))) (run evs (init coll)))
              ''todo'' = Some (Items (todo b))))) \<and>
   (t \<in> set (sockets (run evs (init coll))) \<and> t \<in> socketId ` set (members (run evs (init coll)) r)
      \<longrightarrow> t \<in> set (in_room (run evs (init coll)) r))"
proof -
  define st where "st = run evs (init coll)"
  have "inv st" unfolding st_def using inv_run [OF inv_init] .
  then have 2: "t \<in> set (sockets st) \<and> t \<in> socketId ` set (members st r)
      \<longrightarrow> t \<in> set (in_room st r)"
    using members_in_room by blast
  have "keys_inv st" unfolding st_def using keys_inv_run [OF keys_inv_init] .
  then have p: "taskBoards st ''__proto__'' = None" by (simp add: keys_inv_def)
  have 1: "step (Client s (EvTasksUpdate (Some r) (Some b))) st =
        (taskBoards_set r b st)\<lparr>delivered := delivered st @
             concat (replicate (length (listeners st s))
               (map (\<lambda>t. (t, TasksUpdate (Board b))) (in_room st r)))\<rparr> \<and>
      taskBoards_get (step (Client s (EvTasksUpdate (Some r) (Some b))) st) r = Some (Board b) \<and>
      (r \<noteq> ''__proto__'' \<longrightarrow>
         taskBoards (step (Client s (EvTasksUpdate (Some r) (Some b))) st) = (taskBoards st)(r \<mapsto> b) \<and>
         taskBoards_proto (step (Client s (EvTasksUpdate (Some r) (Some b))) st) =
           taskBoards_proto st) \<and>
      (r = ''__proto__'' \<longrightarrow>
         taskBoards (step (Client s (EvTasksUpdate (Some r) (Some b))) st) = taskBoards st \<and>
         taskBoards_proto (step (Client s (EvTasksUpdate (Some r) (Some b))) st) = Some b \<and>
         (taskBoards st ''todo'' = None \<longrightarrow>
            taskBoards_get (step (Client s (EvTasksUpdate (Some r) (Some b))) st) ''todo'' =
              Some (Items (todo b))))"
    if c: "s \<in> set (sockets st)" "listeners st s \<noteq> []" "r \<noteq> []"
  proof -
    have e: "step (Client s (EvTasksUpdate (Some r) (Some b))) st =
        (taskBoards_set r b st)\<lparr>delivered := delivered st @
             concat (replicate (length (listeners st s))
               (map (\<lambda>t. (t, TasksUpdate (Board b))) (in_room st r)))\<rparr>"
      using c by (simp add: dispatch_tasks_update)
    have g: "taskBoards_get (step (Client s (EvTasksUpdate (Some r) (Some b))) st) r = Some (Board b)"
      unfolding e by (simp add: taskBoards_get_set [OF p])
    have f: "r \<noteq> ''__proto__'' \<longrightarrow>
         taskBoards (step (Client s (EvTasksUpdate (Some r) (Some b))) st) = (taskBoards st)(r \<mapsto> b) \<and>
         taskBoards_proto (step (Client s (EvTasksUpdate (Some r) (Some b))) st) =
           taskBoards_proto st"
      unfolding e by (simp add: taskBoards_set_def)
    have h: "r = ''__proto__'' \<longrightarrow>
         taskBoards (step (Client s (EvTasksUpdate (Some r) (Some b))) st) = taskBoards st \<and>
         taskBoards_proto (step (Client s (EvTasksUpdate (Some r) (Some b))) st) = Some b \<and>
         (taskBoards st ''todo'' = None \<longrightarrow>
            taskBoards_get (step (Client s (EvTasksUpdate (Some r) (Some b))) st) ''todo'' =
              Some (Items (todo b)))"
      unfolding e by (simp add: taskBoards_set_def taskBoards_get_def board_property_def)
    show ?thesis using e g f h by blast
  qed
  show ?thesis using 1 2 unfolding st_def by blast
qed

text \<open>
  Socket \<open>s1\<close> has joined room \<open>A\<close> only. Its update for room \<open>B\<close>, which has no
  member, creates the board of \<open>B\<close> and reaches nobody; its update for room \<open>A\<close>
  reaches the member of \<open>A\<close>; its update for \<^verbatim>\<open>__proto__\<close> makes the board the
  prototype, and the key \<^verbatim>\<open>todo\<close> then reads the list of that board.
\<close>
theorem C9_witness:
  "''s1'' \<in> set (sockets (run joined_A_only (init []))) \<and>
   listeners (run joined_A_only (init [])) ''s1'' = [''A''] \<and>
   members (run joined_A_only (init [])) ''B'' = [] \<and>
   taskBoards (run joined_A_only (init [])) ''B'' = None \<and>
   taskBoards (step (Client ''s1'' (EvTasksUpdate (Some ''B'') (Some default_board)))
     (run joined_A_only (init []))) ''B'' = Some default_board \<and>
   new_deliveries (run joined_A_only (init []))
     (step (Client ''s1'' (EvTasksUpdate (Some ''B'') (Some default_board)))
        (run joined_A_only (init []))) = [] \<and>
   ''s1'' \<in> socketId ` set (members (run joined_A_only (init [])) ''A'') \<and>
   new_deliveries (run joined_A_only (init []))
     (step (Client ''s1'' (EvTasksUpdate (Some ''A'') (Some default_board)))
        (run joined_A_only (init []))) = [(''s1'', TasksUpdate (Board default_board))] \<and>
   taskBoards (run joined_A_only (init [])) ''todo'' = None \<and>
   taskBoards_get (run joined_A_only (init [])) ''todo'' = None \<and>
   taskBoards_proto
     (step (Client ''s1'' (EvTasksUpdate (Some ''__proto__'')
        (Some \<lparr>todo = [''x''], inprogress = [], done_field = []\<rparr>)))
        (run joined_A_only (init []))) = Some \<lparr>todo = [''x''], inprogress = [], done_field = []\<rparr> \<and>
   taskBoards_get
     (step (Client ''s1'' (EvTasksUpdate (Some ''__proto__'')
        (Some \<lparr>todo = [''x''], inprogress = [], done_field = []\<rparr>)))
        (run joined_A_only (init []))) ''todo'' = Some (Items [''x''])"
proof -
  define st0 where "st0 = run joined_A_only (init [])"
  have a: "''s1'' \<in> set (sockets st0)" "listeners st0 ''s1'' = [''A'']" "members st0 ''B'' = []"
    "taskBoards st0 ''B'' = None" "''s1'' \<in> socketId ` set (members st0 ''A'')"
    "in_room st0 ''B'' = []" "in_room st0 ''A'' = [''s1'']"
    "taskBoards st0 ''todo'' = None" "taskBoards_get st0 ''todo'' = None"
    unfolding st0_def by (simp_all add: joined_A_only_def handler_defs members_def)
  have nz: "''A'' \<noteq> []" "''B'' \<noteq> []" "''__proto__'' \<noteq> []" "listeners st0 ''s1'' \<noteq> []"
    "''B'' \<noteq> ''__proto__''" "''A'' \<noteq> ''__proto__''"
    by (simp_all add: a)
  note TB = C9_tasks_update_keyed_by_payload [where s = "''s1''" and evs = joined_A_only
      and coll = "[]" and r = "''B''" and b = default_board and t = "''s1''", folded st0_def]
  note TA = C9_tasks_update_keyed_by_payload [where s = "''s1''" and evs = joined_A_only
      and coll = "[]" and r = "''A''" and b = default_board and t = "''s1''", folded st0_def]
  note TP = C9_tasks_update_keyed_by_payload [where s = "''s1''" and evs = joined_A_only
      and coll = "[]" and r = "''__proto__''"
      and b = "\<lparr>todo = [''x''], inprogress = [], done_field = []\<rparr>" and t = "''s1''",
      folded st0_def]
  from TB a(1) nz have
    "taskBoards (step (Client ''s1'' (EvTasksUpdate (Some ''B'') (Some default_board))) st0) =
       (taskBoards st0)(''B'' \<mapsto> default_board)"
    "step (Client ''s1'' (EvTasksUpdate (Some ''B'') (Some default_board))) st0 =
        (taskBoards_set ''B'' default_board st0)\<lparr>delivered := delivered st0 @
             concat (replicate (length (listeners st0 ''s1''))
               (map (\<lambda>t. (t, TasksUpdate (Board default_board))) (in_room st0 ''B'')))\<rparr>"
    by blast+
  then have b: "taskBoards (step (Client ''s1'' (EvTasksUpdate (Some ''B'') (Some default_board))) st0) ''B''
       = Some default_board"
    "new_deliveries st0 (step (Client ''s1'' (EvTasksUpdate (Some ''B'') (Some default_board))) st0) = []"
    by (simp_all add: a new_deliveries_def)
  from TA a(1,5) have m: "''s1'' \<in> set (in_room st0 ''A'')" by blast
  from TA a(1) nz have "step (Client ''s1'' (EvTasksUpdate (Some ''A'') (Some default_board))) st0 =
        (taskBoards_set ''A'' default_board st0)\<lparr>delivered := delivered st0 @
             concat (replicate (length (listeners st0 ''s1''))
               (map (\<lambda>t. (t, TasksUpdate (Board default_board))) (in_room st0 ''A'')))\<rparr>"
    by blast
  then have c: "new_deliveries st0 (step (Client ''s1'' (EvTasksUpdate (Some ''A'') (Some default_board))) st0)
       = [(''s1'', TasksUpdate (Board default_board))]"
    using m by (simp add: a new_deliveries_def)
  from TP a(1,8) nz have d:
    "taskBoards_proto (step (Client ''s1'' (EvTasksUpdate (Some ''__proto__'')
        (Some \<lparr>todo = [''x''], inprogress = [], done_field = []\<rparr>))) st0) =
       Some \<lparr>todo = [''x''], inprogress = [], done_field = []\<rparr>"
    "taskBoards_get (step (Client ''s1'' (EvTasksUpdate (Some ''__proto__'')
        (Some \<lparr>todo = [''x''], inprogress = [], done_field = []\<rparr>))) st0) ''todo'' =
       Some (Items (todo \<lparr>todo = [''x''], inprogress = [], done_field = []\<rparr>))"
    by blast+
  have t: "todo \<lparr>todo = [''x''], inprogress = [], done_field = []\<rparr> = [''x'']" by simp
  note d' = d [unfolded t]
  show ?thesis
    using a(1,2,3,4,5,8,9) b c d' unfolding st0_def by blast
qed

subsection \<open>Joining the same room twice\<close>

lemma count_list_remove1:
  "count_list (remove1 b xs) a =
     (if a = b \<and> b \<in> set xs then count_list xs a - 1 else count_list xs a)"
  by (induction xs) auto

lemma valid_join_cases:
  "valid_join s r e \<longleftrightarrow> (\<exists>u. e = Client s (EvJoinRoom (Some r) (Some u)) \<and> r \<noteq> [] \<and> u \<noteq> [])"
  by (cases "(s, r, e)" rule: valid_join.cases) auto

lemma counts_same_tables:
  "same_tables st st' \<Longrightarrow>
   entries st' s r = entries st s r \<and> closures st' s r = closures st s r \<and>
   suspended st' s r = suspended st s r \<and> sockets st' = sockets st"
  by (simp add: same_tables_def entries_def closures_def suspended_def members_def)

lemma counts_join:
  assumes "r \<notin> set Object_prototype"
  shows "entries (join_room t ra ua st) s r =
           entries st s r + (if valid_join s r (Client t (EvJoinRoom ra ua)) then 1 else 0) \<and>
         closures (join_room t ra ua st) s r = closures st s r \<and>
         suspended (join_room t ra ua st) s r =
           suspended st s r + (if valid_join s r (Client t (EvJoinRoom ra ua)) then 1 else 0) \<and>
         sockets (join_room t ra ua st) = sockets st"
proof (cases "truthy ra \<and> truthy ua")
  case False
  then have "join_room t ra ua st = st" by (auto simp: join_room_def)
  moreover have "\<not> valid_join s r (Client t (EvJoinRoom ra ua))"
    using False by (auto simp: valid_join_cases truthy_def)
  ultimately show ?thesis by simp
next
  case True
  then obtain x u where ru: "ra = Some x" "ua = Some u" "x \<noteq> []" "u \<noteq> []"
    by (auto simp: truthy_def split: option.splits)
  then have t: "truthy (Some x)" "truthy (Some u)" by (simp_all add: truthy_def)
  show ?thesis
  proof (cases "join_throws st x")
    case True
    then have "x \<noteq> r" using assms by (auto simp: join_throws_def)
    then have "\<not> valid_join s r (Client t (EvJoinRoom ra ua))" by (simp add: ru)
    then show ?thesis unfolding ru join_room_throws [OF t True]
      by (simp add: entries_def closures_def suspended_def members_def)
  next
    case False
    show ?thesis unfolding ru
      using ru(3,4)
      by (auto simp: entries_def closures_def suspended_def members_join [OF t False]
          join_fields [OF t False])
  qed
qed

lemma counts_disconnect_handler:
  "t \<noteq> s \<Longrightarrow> entries (disconnect_handler t x st) s r = entries st s r"
  by (simp add: entries_def members_disconnect)
     (metis (mono_tags, lifting) filter_cong)

lemma counts_step:
  assumes "inv st" "s \<in> set (sockets st)" "e \<noteq> Disconnect s" "r \<notin> set Object_prototype"
  shows "s \<in> set (sockets (step e st)) \<and>
         entries (step e st) s r = entries st s r + (if valid_join s r e then 1 else 0) \<and>
         closures (step e st) s r + suspended (step e st) s r =
           closures st s r + suspended st s r + (if valid_join s r e then 1 else 0)"
proof (cases e)
  case (Connect t)
  have "t \<notin> used_ids st \<Longrightarrow> t \<noteq> s" using assms(1,2) unfolding inv_def by blast
  then show ?thesis using assms(2) Connect
    by (auto simp: entries_def closures_def suspended_def members_def)
next
  case (Client t ev)
  show ?thesis
  proof (cases "t \<in> set (sockets st)")
    case False
    then have "t \<noteq> s" using assms(2) by blast
    then have "\<not> valid_join s r e" by (simp add: valid_join_cases Client)
    then show ?thesis using False Client assms(2) by simp
  next
    case True
    show ?thesis
    proof (cases "\<exists>ra ua. ev = EvJoinRoom ra ua")
      case True
      then obtain ra ua where ev: "ev = EvJoinRoom ra ua" by blast
      show ?thesis unfolding Client ev using counts_join [OF assms(4), of t ra ua st s] assms(2) \<open>t \<in> set (sockets st)\<close>
        by simp
    next
      case False
      then have "same_tables st (client_step t ev st)" by (intro same_tables_client) simp
      from counts_same_tables [OF this, of s r]
      have "entries (step e st) s r = entries st s r" "closures (step e st) s r = closures st s r"
        "suspended (step e st) s r = suspended st s r" "sockets (step e st) = sockets st"
        using True Client by simp_all
      moreover have "\<not> valid_join s r e" using False by (auto simp: valid_join_cases Client)
      ultimately show ?thesis using assms(2) by simp
    qed
  qed
next
  case (Disconnect t)
  with assms(3) have ts: "t \<noteq> s" by simp
  show ?thesis
  proof (cases "t \<in> set (sockets st)")
    case False
    then show ?thesis using Disconnect assms(2) by simp
  next
    case True
    let ?st0 = "st\<lparr>sockets := removeAll t (sockets st),
                   adapter := (\<lambda>x. removeAll t (adapter st x))\<rparr>"
    let ?st1 = "dispatch (disconnect_handler t) (listeners st t) ?st0"
    have "entries ?st1 s r = entries ?st0 s r"
      by (rule dispatch_field) (simp add: counts_disconnect_handler [OF ts])
    moreover have "listeners ?st1 = listeners ?st0" "pending_finds ?st1 = pending_finds ?st0"
      "sockets ?st1 = sockets ?st0"
      by (rule dispatch_field, simp add: disconnect_fields)+
    ultimately show ?thesis using Disconnect True assms(2) ts
      by (simp add: entries_def closures_def suspended_def members_def)
  qed
next
  case (FindDone t x ok)
  show ?thesis
  proof (cases "(t, x) \<in> set (pending_finds st)")
    case False
    then show ?thesis using FindDone assms(2) by simp
  next
    case True
    have c: "0 < count_list (pending_finds st) (t, x)"
      using True count_list_0_iff [of "pending_finds st" "(t, x)"] by auto
    show ?thesis using True FindDone assms(2) c
      by (auto simp: entries_def closures_def suspended_def resume_fields count_list_remove1)
  qed
next
  case (CreateDone i ok)
  have "same_tables st (step (CreateDone i ok) st)"
    using same_tables_handlers(11) [of "st\<lparr>pending_creates := remove_nth i (pending_creates st)\<rparr>"]
    by (simp add: same_tables_def)
  from counts_same_tables [OF this, of s r] show ?thesis using CreateDone assms(2) by simp
next
  case (Tick n)
  then show ?thesis using assms(2) by (simp add: entries_def closures_def suspended_def members_def)
qed

lemma counts_run:
  assumes "r \<notin> set Object_prototype"
  shows "inv st \<Longrightarrow> s \<in> set (sockets st) \<Longrightarrow> Disconnect s \<notin> set evs \<Longrightarrow>
         s \<in> set (sockets (run evs st)) \<and>
         entries (run evs st) s r = entries st s r + length (filter (valid_join s r) evs) \<and>
         closures (run evs st) s r + suspended (run evs st) s r =
           closures st s r + suspended st s r + length (filter (valid_join s r) evs)"
proof (induction evs arbitrary: st)
  case Nil
  then show ?case by simp
next
  case (Cons e es)
  from Cons.prems have e: "e \<noteq> Disconnect s" "Disconnect s \<notin> set es" by auto
  from counts_step [OF Cons.prems(1,2) e(1) assms]
  have 1: "s \<in> set (sockets (step e st))"
    "entries (step e st) s r = entries st s r + (if valid_join s r e then 1 else 0)"
    "closures (step e st) s r + suspended (step e st) s r =
           closures st s r + suspended st s r + (if valid_join s r e then 1 else 0)"
    by blast+
  from Cons.IH [OF inv_step [OF Cons.prems(1)] 1(1) e(2)]
  show ?case using 1 by simp
qed

lemma draw_step:
  assumes "heap_inv st"
  shows "heap_inv (whiteboard_draw s k x st) \<and>
         getStrokes (whiteboard_draw s k x st) r =
           getStrokes st r @ (if same_log st r x then [k] else []) \<and>
         (\<forall>y. same_log (whiteboard_draw s k x st) r y = same_log st r y)"
proof -
  have n: "whiteboardData st y \<noteq> Some (next_array st)" for y
    using assms unfolding heap_inv_def by (metis less_irrefl)
  show ?thesis
  proof (cases "whiteboardData st x")
    case None
    have w: "whiteboardData (whiteboard_draw s k x st) = (whiteboardData st)(x \<mapsto> next_array st)"
      "arrays (whiteboard_draw s k x st) = (arrays st)(next_array st := [k])"
      using None by (simp_all add: whiteboard_draw_def emit_defs new_array_def array_push_def)
    have 1: "getStrokes (whiteboard_draw s k x st) r =
           getStrokes st r @ (if same_log st r x then [k] else [])"
      using None n [of r] w by (auto simp: getStrokes_def same_log_def split: option.splits)
    have 2: "same_log (whiteboard_draw s k x st) r y = same_log st r y" for y
      using None n [of r] n [of y] w by (auto simp: same_log_def)
    show ?thesis using heap_inv_draw [OF assms] 1 2 by blast
  next
    case (Some a)
    have w: "whiteboardData (whiteboard_draw s k x st) = whiteboardData st"
      "arrays (whiteboard_draw s k x st) = (arrays st)(a := arrays st a @ [k])"
      using Some by (simp_all add: whiteboard_draw_def emit_defs new_array_def array_push_def)
    have 1: "getStrokes (whiteboard_draw s k x st) r =
           getStrokes st r @ (if same_log st r x then [k] else [])"
      using Some w by (auto simp: getStrokes_def same_log_def split: option.splits)
    have 2: "same_log (whiteboard_draw s k x st) r y = same_log st r y" for y
      by (simp add: same_log_def w)
    show ?thesis using heap_inv_draw [OF assms] 1 2 by blast
  qed
qed

lemma getStrokes_dispatch_draw:
  "heap_inv st \<Longrightarrow>
   getStrokes (dispatch (whiteboard_draw s k) ls st) r =
     getStrokes st r @ replicate (length (filter (same_log st r) ls)) k"
proof (induction ls arbitrary: st)
  case Nil
  show ?case by simp
next
  case (Cons x xs)
  let ?st1 = "whiteboard_draw s k x st"
  from draw_step [OF Cons.prems, of s k x r] have
    h: "heap_inv ?st1" and
    g: "getStrokes ?st1 r = getStrokes st r @ (if same_log st r x then [k] else [])" and
    e: "same_log ?st1 r = same_log st r"
    by auto
  have "getStrokes (dispatch (whiteboard_draw s k) (x # xs) st) r =
        getStrokes ?st1 r @ replicate (length (filter (same_log ?st1 r) xs)) k"
    using Cons.IH [OF h] by simp
  then show ?case unfolding g e by (simp add: replicate_append_same)
qed

text \<open>
  C10, as the code has it. Let a socket be connected in a reachable state, and let
  \<open>r\<close> be a room key that is no property name of \<^verbatim>\<open>Object.prototype\<close>. Whatever
  events follow, in whatever order, as long as the socket does not disconnect: the
  membership list of \<open>r\<close> gains one entry of the socket for each of its
  \<^verbatim>\<open>join-room\<close> events for \<open>r\<close> that pass the guard, and the closures over \<open>r\<close> that
  the socket holds, together with its joins of \<open>r\<close> still suspended at the store,
  grow by the same number; so two joins give two entries, and two closures once both
  have resumed. A \<^verbatim>\<open>whiteboard:draw\<close> of the socket appends the stroke to the log of
  \<open>r\<close> once per closure of the socket over a room that has that log: \<open>r\<close> itself, or a
  room whose key refers to the same array. That is twice when the socket holds two
  closures over \<open>r\<close> and none over another room with the same array. Under a
  property name of \<^verbatim>\<open>Object.prototype\<close> no membership list is stored and no closure is
  held.
\<close>
theorem C10_double_join_double_draw:
  "(s \<in> set (sockets (run evs (init coll))) \<and> r \<notin> set Object_prototype \<and>
    Disconnect s \<notin> set later \<longrightarrow>
      s \<in> set (sockets (run later (run evs (init coll)))) \<and>
      entries (run later (run evs (init coll))) s r =
        entries (run evs (init coll)) s r + length (filter (valid_join s r) later) \<and>
      closures (run later (run evs (init coll))) s r +
        suspended (run later (run evs (init coll))) s r =
        closures (run evs (init coll)) s r + suspended (run evs (init coll)) s r +
        length (filter (valid_join s r) later)) \<and>
   (s \<in> set (sockets (run evs (init coll))) \<longrightarrow>
      getStrokes (step (Client s (EvWhiteboardDraw k)) (run evs (init coll))) r =
        getStrokes (run evs (init coll)) r @
        replicate (length (filter (same_log (run evs (init coll)) r)
          (listeners (run evs (init coll)) s))) k) \<and>
   (s \<in> set (sockets (run evs (init coll))) \<and> closures (run evs (init coll)) s r = 2 \<and>
    (\<forall>x \<in> set (listeners (run evs (init coll)) s). same_log (run evs (init coll)) r x \<longrightarrow> x = r) \<longrightarrow>
      getStrokes (step (Client s (EvWhiteboardDraw k)) (run evs (init coll))) r =
        getStrokes (run evs (init coll)) r @ [k, k]) \<and>
   (q \<in> set Object_prototype \<longrightarrow>
      rooms (run evs (init coll)) q = None \<and> closures (run evs (init coll)) t q = 0 \<and>
      suspended (run evs (init coll)) t q = 0)"
proof -
  define st where "st = run evs (init coll)"
  have i: "inv st" unfolding st_def using inv_run [OF inv_init] .
  have h: "heap_inv st" unfolding st_def using heap_inv_run [OF heap_inv_init] .
  have y: "keys_inv st" unfolding st_def using keys_inv_run [OF keys_inv_init] .
  have 1: "s \<in> set (sockets st) \<and> r \<notin> set Object_prototype \<and> Disconnect s \<notin> set later \<longrightarrow>
      s \<in> set (sockets (run later st)) \<and>
      entries (run later st) s r = entries st s r + length (filter (valid_join s r) later) \<and>
      closures (run later st) s r + suspended (run later st) s r =
        closures st s r + suspended st s r + length (filter (valid_join s r) later)"
    using counts_run [OF _ i, of r s later] by blast
  have 2: "getStrokes (step (Client s (EvWhiteboardDraw k)) st) r =
        getStrokes st r @ replicate (length (filter (same_log st r) (listeners st s))) k"
    if "s \<in> set (sockets st)"
    using that by (simp add: getStrokes_dispatch_draw [OF h])
  have 3: "getStrokes (step (Client s (EvWhiteboardDraw k)) st) r = getStrokes st r @ [k, k]"
    if a: "s \<in> set (sockets st)" "closures st s r = 2"
      "\<forall>x \<in> set (listeners st s). same_log st r x \<longrightarrow> x = r"
  proof -
    have "filter (same_log st r) (listeners st s) = filter ((=) r) (listeners st s)"
      using a(3) by (intro filter_cong) (auto simp: same_log_def)
    moreover have "length (filter ((=) r) (listeners st s)) = count_list (listeners st s) r"
      by (simp add: count_list_eq_length_filter)
    ultimately have "length (filter (same_log st r) (listeners st s)) = 2"
      using a(2) by (simp add: closures_def)
    then show ?thesis using 2 [OF a(1)] by (simp add: numeral_2_eq_2)
  qed
  have 4: "q \<in> set Object_prototype \<longrightarrow>
      rooms st q = None \<and> closures st t q = 0 \<and> suspended st t q = 0"
    using y unfolding keys_inv_def closures_def suspended_def
    by (simp add: count_list_0_iff)
  show ?thesis using 1 2 3 4 unfolding st_def by blast
qed

text \<open>
  Socket \<open>s1\<close>, joined to room \<open>A\<close>, emits two joins of room \<open>B\<close> before either
  resumes: two entries, two closures once both have resumed, and its draw then
  appends the stroke to the log of \<open>B\<close> twice.
\<close>
theorem C10_witness:
  "''s1'' \<in> set (sockets (run joined_A_only (init []))) \<and>
   ''B'' \<notin> set Object_prototype \<and>
   Disconnect ''s1'' \<notin> set joins_B_twice \<and>
   entries (run joins_B_twice (run joined_A_only (init []))) ''s1'' ''B'' = 2 \<and>
   closures (run joins_B_twice (run joined_A_only (init []))) ''s1'' ''B'' +
     suspended (run joins_B_twice (run joined_A_only (init []))) ''s1'' ''B'' = 2 \<and>
   closures (run (joined_A_only @ joins_B_twice) (init [])) ''s1'' ''B'' = 2 \<and>
   listeners (run (joined_A_only @ joins_B_twice) (init [])) ''s1'' = [''A'', ''B'', ''B''] \<and>
   getStrokes (step (Client ''s1'' (EvWhiteboardDraw ''k''))
      (run (joined_A_only @ joins_B_twice) (init []))) ''B'' = [''k'', ''k''] \<and>
   rooms (run joined_A_only (init [])) ''constructor'' = None"
proof -
  define st0 where "st0 = run joined_A_only (init [])"
  define st4 where "st4 = run (joined_A_only @ joins_B_twice) (init [])"
  have a: "''s1'' \<in> set (sockets st0)" "''B'' \<notin> set Object_prototype"
    "Disconnect ''s1'' \<notin> set joins_B_twice" "entries st0 ''s1'' ''B'' = 0"
    "closures st0 ''s1'' ''B'' = 0" "suspended st0 ''s1'' ''B'' = 0"
    "length (filter (valid_join ''s1'' ''B'') joins_B_twice) = 2"
    "''constructor'' \<in> set Object_prototype"
    unfolding st0_def
    by (simp_all add: joined_A_only_def joins_B_twice_def handler_defs entries_def closures_def
        suspended_def members_def)
  have b: "''s1'' \<in> set (sockets st4)" "listeners st4 ''s1'' = [''A'', ''B'', ''B'']"
    "whiteboardData st4 ''B'' = None" "getStrokes st4 ''B'' = []"
    unfolding st4_def
    by (simp_all add: joined_A_only_def joins_B_twice_def handler_defs)
  have c: "closures st4 ''s1'' ''B'' = 2"
    "\<forall>x \<in> set (listeners st4 ''s1''). same_log st4 ''B'' x \<longrightarrow> x = ''B''"
    by (simp_all add: closures_def same_log_def b)
  note T = C10_double_join_double_draw [where s = "''s1''" and evs = joined_A_only and coll = "[]"
      and r = "''B''" and later = joins_B_twice and k = "''k''" and q = "''constructor''"
      and t = "''s1''", folded st0_def]
  note U = C10_double_join_double_draw [where s = "''s1''" and evs = "joined_A_only @ joins_B_twice"
      and coll = "[]" and r = "''B''" and later = "[]" and k = "''k''" and q = "''constructor''"
      and t = "''s1''", folded st4_def]
  from T a(1,2,3) have
    "entries (run joins_B_twice st0) ''s1'' ''B'' =
       entries st0 ''s1'' ''B'' + length (filter (valid_join ''s1'' ''B'') joins_B_twice)"
    "closures (run joins_B_twice st0) ''s1'' ''B'' + suspended (run joins_B_twice st0) ''s1'' ''B'' =
       closures st0 ''s1'' ''B'' + suspended st0 ''s1'' ''B'' +
       length (filter (valid_join ''s1'' ''B'') joins_B_twice)"
    by blast+
  then have d: "entries (run joins_B_twice st0) ''s1'' ''B'' = 2"
    "closures (run joins_B_twice st0) ''s1'' ''B'' + suspended (run joins_B_twice st0) ''s1'' ''B'' = 2"
    unfolding a(4,5,6,7) by simp_all
  from T a(8) have e: "rooms st0 ''constructor'' = None" by blast
  from U b(1) c have
    "getStrokes (step (Client ''s1'' (EvWhiteboardDraw ''k'')) st4) ''B'' =
       getStrokes st4 ''B'' @ [''k'', ''k'']"
    by blast
  then have f: "getStrokes (step (Client ''s1'' (EvWhiteboardDraw ''k'')) st4) ''B'' = [''k'', ''k'']"
    unfolding b(4) by simp
  show ?thesis using a(1,2,3) d c(1) b(2) f e unfolding st0_def st4_def by blast
qed

text \<open>
  Socket \<open>s2\<close> is in the rooms \<open>A\<close> and \<open>B\<close>, and its undo has stored one payload array
  as the log of both. Socket \<open>s1\<close> joins \<open>A\<close> once and \<open>B\<close> twice: it has two entries in
  the list of \<open>B\<close> and two closures over \<open>B\<close>, and its single draw appends the stroke to
  the log of \<open>B\<close> three times.
\<close>
theorem C10_counterexample:
  "entries (run shared_log (init [])) ''s1'' ''B'' = 2 \<and>
   closures (run shared_log (init [])) ''s1'' ''B'' = 2 \<and>
   suspended (run shared_log (init [])) ''s1'' ''B'' = 0 \<and>
   listeners (run shared_log (init [])) ''s1'' = [''A'', ''B'', ''B''] \<and>
   whiteboardData (run shared_log (init [])) ''A'' = whiteboardData (run shared_log (init [])) ''B'' \<and>
   getStrokes (run shared_log (init [])) ''B'' = [''a''] \<and>
   getStrokes (step (Client ''s1'' (EvWhiteboardDraw ''k'')) (run shared_log (init []))) ''B'' =
     [''a'', ''k'', ''k'', ''k'']"
  by (simp add: shared_log_def handler_defs entries_def closures_def suspended_def members_def)

end
